theory Spec2Isabelle
  imports Main "HOL-Library.Sublist"
begin

section \<open>JavaScript strings\<close>

text \<open>
  A JavaScript string is a sequence of UTF-16 code units; \<open>length\<close>, indexing, \<open>slice\<close>,
  \<open>padStart\<close> and the comparison operators all count and compare code units. The model
  keeps that: a string is a list of code units, each a natural number. Every Thai literal of
  the sources lies in the Basic Multilingual Plane, one code unit per character. An absent
  property (\<open>undefined\<close>) and the empty string are both falsy and the sources only ever
  test these fields for truthiness or compare them with non-empty literals, so a missing
  field is the empty list.
\<close>

type_synonym jstr = "nat list"

definition js :: "string \<Rightarrow> jstr" where
  "js s = map of_char s"

definition is_digit :: "nat \<Rightarrow> bool" where
  "is_digit c = (48 \<le> c \<and> c \<le> 57)"

text \<open>White space and line terminators of ECMAScript, as \<open>trim\<close> and \<open>parseInt\<close> strip them.\<close>

definition is_space :: "nat \<Rightarrow> bool" where
  "is_space c = (c \<in> set [9, 10, 11, 12, 13, 32, 160, 5760, 8192, 8193, 8194, 8195, 8196,
      8197, 8198, 8199, 8200, 8201, 8202, 8232, 8233, 8239, 8287, 12288, 65279])"

definition trim :: "jstr \<Rightarrow> jstr" where
  "trim s = rev (dropWhile is_space (rev (dropWhile is_space s)))"

text \<open>\<open>s.padStart(n, c)\<close> for a one-unit pad string.\<close>

definition padStart :: "nat \<Rightarrow> nat \<Rightarrow> jstr \<Rightarrow> jstr" where
  "padStart n c s = replicate (n - length s) c @ s"

text \<open>\<open>s.includes(q)\<close> and \<open>s.startsWith(q)\<close>.\<close>

fun js_includes :: "jstr \<Rightarrow> jstr \<Rightarrow> bool" where
  "js_includes [] q = (q = [])"
| "js_includes (c # s) q = (prefix q (c # s) \<or> js_includes s q)"

definition startsWith :: "jstr \<Rightarrow> jstr \<Rightarrow> bool" where
  "startsWith s q = prefix q s"

text \<open>The relational operators on two strings: lexicographic on code units.\<close>

fun js_lt :: "jstr \<Rightarrow> jstr \<Rightarrow> bool" where
  "js_lt [] [] = False"
| "js_lt [] (b # bs) = True"
| "js_lt (a # as) [] = False"
| "js_lt (a # as) (b # bs) = (a < b \<or> (a = b \<and> js_lt as bs))"

definition js_ge :: "jstr \<Rightarrow> jstr \<Rightarrow> bool" where
  "js_ge a b = (\<not> js_lt a b)"

text \<open>
  The regular expressions of the sources are all anchored and of fixed shape: digits and
  literal characters. \<open>pat s p\<close> matches \<open>s\<close> against such a shape, \<open>d\<close> standing for
  \<open>\d\<close> (an ASCII digit, the expressions carry no unicode flag) and any other character
  for itself; \<open>$\<close> without the multiline flag matches at the very end only.
\<close>

fun pat :: "jstr \<Rightarrow> string \<Rightarrow> bool" where
  "pat [] [] = True"
| "pat (c # s) (p # ps) = ((if p = CHR ''d'' then is_digit c else c = of_char p) \<and> pat s ps)"
| "pat _ _ = False"

text \<open>\<open>s.split(':')\<close> destructured as \<open>[hours, minutes]\<close>.\<close>

definition hours_of :: "jstr \<Rightarrow> jstr" where
  "hours_of s = takeWhile (\<lambda>c. c \<noteq> 58) s"

definition minutes_of :: "jstr \<Rightarrow> jstr" where
  "minutes_of s = takeWhile (\<lambda>c. c \<noteq> 58) (drop 1 (dropWhile (\<lambda>c. c \<noteq> 58) s))"

section \<open>Time normalisation (googleCalendar.js, normalizeTime)\<close>

text \<open>The five tests of \<open>normalizeTime\<close>, in the order of the source.\<close>

definition re_hh_mm :: "jstr \<Rightarrow> bool" where
  \<comment> \<open>\<open>/^\d{1,2}:\d{2}$/\<close>\<close>
  "re_hh_mm s = (pat s ''d:dd'' \<or> pat s ''dd:dd'')"

definition re_h_mm :: "jstr \<Rightarrow> bool" where
  \<comment> \<open>\<open>/^\d{1}:\d{2}$/\<close>\<close>
  "re_h_mm s = pat s ''d:dd''"

definition re_hh :: "jstr \<Rightarrow> bool" where
  \<comment> \<open>\<open>/^\d{1,2}$/\<close>\<close>
  "re_hh s = (pat s ''d'' \<or> pat s ''dd'')"

definition re_hh_m :: "jstr \<Rightarrow> bool" where
  \<comment> \<open>\<open>/^\d{1,2}:\d{1}$/\<close>\<close>
  "re_hh_m s = (pat s ''d:d'' \<or> pat s ''dd:d'')"

definition re_compact :: "jstr \<Rightarrow> bool" where
  \<comment> \<open>\<open>/^\d{3,4}$/\<close>\<close>
  "re_compact s = (pat s ''ddd'' \<or> pat s ''dddd'')"

text \<open>
  \<open>normalizeTime\<close>: \<open>None\<close> is the source's \<open>null\<close>. The argument is a string (job
  fields come from sheet rows and form posts); the falsy test only rejects the empty one.
\<close>

definition normalizeTime :: "jstr \<Rightarrow> jstr option" where
  "normalizeTime time =
     (if time = [] then None
      else let timeStr = trim time in
        if re_hh_mm timeStr then
          Some (padStart 2 48 (hours_of timeStr) @ [58] @ minutes_of timeStr)
        else if re_h_mm timeStr then
          Some (padStart 2 48 (hours_of timeStr) @ [58] @ minutes_of timeStr)
        else if re_hh timeStr then
          Some (padStart 2 48 timeStr @ js '':00'')
        else if re_hh_m timeStr then
          Some (padStart 2 48 (hours_of timeStr) @ [58] @ padStart 2 48 (minutes_of timeStr))
        else if re_compact timeStr then
          (if length timeStr = 3 then Some ([48] @ take 1 timeStr @ [58] @ drop 1 timeStr)
           else if length timeStr = 4 then Some (take 2 timeStr @ [58] @ drop 2 timeStr)
           else None)
        else None)"

text \<open>
  The shapes of the specification, read literally: \<open>H:MM\<close>, \<open>HH:MM\<close>, \<open>H:M\<close>, bare hour
  digits (one or two), and the compact form of three or four digits.
\<close>

definition spec_shape :: "jstr \<Rightarrow> bool" where
  "spec_shape s = (pat s ''d:dd'' \<or> pat s ''dd:dd'' \<or> pat s ''d:d'' \<or> pat s ''d''
      \<or> pat s ''dd'' \<or> pat s ''ddd'' \<or> pat s ''dddd'')"

text \<open>The shapes the code accepts: those, and \<open>HH:M\<close>; all after trimming white space.\<close>

definition accepted_shape :: "jstr \<Rightarrow> bool" where
  "accepted_shape s = (spec_shape (trim s) \<or> pat (trim s) ''dd:d'')"

section \<open>Job records\<close>

text \<open>
  A job is a plain object: the row objects \<open>getAllJobs\<close> builds from the sheet's header, and
  the objects the route handlers hand to the calendar service. The record lists the
  properties the modelled functions read. All are strings; an absent property is the empty
  string.
\<close>

record job =
  job_id :: jstr
  team :: jstr
  date_type :: jstr
  date :: jstr
  start_date :: jstr
  end_date :: jstr
  start_time :: jstr
  end_time :: jstr
  time_window :: jstr
  customer :: jstr
  customer_name :: jstr
  jtype :: jstr
  phone :: jstr
  customer_phone :: jstr
  address :: jstr
  customer_address :: jstr
  status :: jstr
  jdetails :: jstr
  job_description :: jstr
  jnotes :: jstr
  eventId :: jstr
  calendar_event_id :: jstr
  updated_at :: jstr

definition blank_job :: job where
  "blank_job = \<lparr> job_id = [], team = [], date_type = [], date = [], start_date = [],
     end_date = [], start_time = [], end_time = [], time_window = [], customer = [],
     customer_name = [], jtype = [], phone = [], customer_phone = [], address = [],
     customer_address = [], status = [], jdetails = [], job_description = [], jnotes = [],
     eventId = [], calendar_event_id = [], updated_at = [] \<rparr>"

text \<open>\<open>a || b\<close> on strings.\<close>

definition or_else :: "jstr \<Rightarrow> jstr \<Rightarrow> jstr" where
  "or_else a b = (if a = [] then b else a)"

section \<open>End-time repair (googleCalendar.js, createSingleDateEvent, lines 164--197)\<close>

text \<open>
  The first block of \<open>createSingleDateEvent\<close>: the start and end time it goes on with. The
  last two branches of the source both assign \<open>17:00\<close>; they are kept apart as written.
\<close>

definition repairTimes :: "job \<Rightarrow> jstr \<times> jstr" where
  "repairTimes j =
     (let startTime = or_else (start_time j) (js ''09:00'');
          endTime = or_else (end_time j) (js ''17:00'')
      in if endTime = js ''0:00'' \<or> endTime = js ''00:00'' then
           (if time_window j = js ''AM'' then (js ''09:00'', js ''12:00'')
            else if time_window j = js ''PM'' then (js ''13:00'', js ''17:00'')
            else if time_window j = js ''All Day'' then (js ''08:00'', js ''18:00'')
            else if startTime = js ''09:00'' \<or> startTime = js ''9:00'' then (startTime, js ''12:00'')
            else if js_ge startTime (js ''13:00'') then (startTime, js ''17:00'')
            else (startTime, js ''17:00''))
         else (startTime, endTime))"

section \<open>Numbers and their decimal text\<close>

text \<open>\<open>String(n)\<close> for a non-negative integer, and for an integer.\<close>

fun show_nat :: "nat \<Rightarrow> jstr" where
  "show_nat n = (if n < 10 then [48 + n] else show_nat (n div 10) @ [48 + n mod 10])"

declare show_nat.simps [simp del]

definition show_int :: "int \<Rightarrow> jstr" where
  "show_int i = (if i < 0 then 45 # show_nat (nat (- i)) else show_nat (nat i))"

text \<open>The value of a run of decimal digits.\<close>

definition dec_val :: "jstr \<Rightarrow> nat" where
  "dec_val s = foldl (\<lambda>a c. 10 * a + (c - 48)) 0 s"

text \<open>
  \<open>parseInt(s)\<close> with no radix: leading white space is skipped, then an optional sign, then
  a \<open>0x\<close> or \<open>0X\<close> prefix selects radix 16; the longest run of digits of the radix is
  read, and an empty run is \<open>NaN\<close> (\<open>None\<close>). JavaScript numbers are doubles, exact for
  integers up to \<open>2^53\<close>; the model reads the integer exactly, and the theorems below only
  speak of ids whose numbers are far below that bound.
\<close>

definition digit_val :: "nat \<Rightarrow> nat" where
  "digit_val c = (if 48 \<le> c \<and> c \<le> 57 then c - 48
                  else if 97 \<le> c \<and> c \<le> 122 then c - 87
                  else if 65 \<le> c \<and> c \<le> 90 then c - 55 else 36)"

definition parseInt :: "jstr \<Rightarrow> int option" where
  "parseInt s =
     (let s1 = dropWhile is_space s;
          neg = (case s1 of [] \<Rightarrow> False | c # r \<Rightarrow> c = 45);
          s2 = (case s1 of [] \<Rightarrow> [] | c # r \<Rightarrow> if c = 45 \<or> c = 43 then r else s1);
          hex = (startsWith s2 (js ''0x'') \<or> startsWith s2 (js ''0X''));
          radix = (if hex then 16 else 10);
          s3 = (if hex then drop 2 s2 else s2);
          z = takeWhile (\<lambda>c. digit_val c < radix) s3
      in if z = [] then None
         else Some ((if neg then - 1 else 1) * int (foldl (\<lambda>a c. radix * a + digit_val c) 0 z)))"

text \<open>\<open>s.replace(q, '')\<close> for a string pattern: the first occurrence of \<open>q\<close> is removed.\<close>

fun remove_first :: "jstr \<Rightarrow> jstr \<Rightarrow> jstr" where
  "remove_first [] q = []"
| "remove_first (c # s) q =
     (if prefix q (c # s) then drop (length q) (c # s) else c # remove_first s q)"

section \<open>Next job id (googleSheets.js, getNextJobId)\<close>

text \<open>
  The body of the \<open>forEach\<close>: one job against the running maximum. \<open>getNextJobId\<close> runs it
  over the jobs \<open>getAllJobs\<close> returned, from \<open>maxId = 0\<close>.
\<close>

definition id_step :: "job \<Rightarrow> int \<Rightarrow> int" where
  "id_step j maxId =
     (if job_id j \<noteq> [] \<and> trim (job_id j) \<noteq> [] \<and> job_id j \<noteq> js ''/''
         \<and> startsWith (job_id j) (js ''JOB-'')
      then (case parseInt (remove_first (job_id j) (js ''JOB-'')) of
              None \<Rightarrow> maxId
            | Some idNum \<Rightarrow> if idNum > maxId then idNum else maxId)
      else maxId)"

definition getNextJobId :: "job list \<Rightarrow> jstr" where
  "getNextJobId jobs = js ''JOB-'' @ padStart 6 48 (show_int (fold id_step jobs 0 + 1))"

text \<open>
  The specification's reading: a well-formed id is \<open>JOB-\<close> and six digits; the next id is
  one more than the largest number among the well-formed ids, zero-padded to six digits.
\<close>

definition well_formed_id :: "jstr \<Rightarrow> bool" where
  "well_formed_id s = pat s ''JOB-dddddd''"

definition spec_next_id :: "job list \<Rightarrow> jstr" where
  "spec_next_id jobs =
     js ''JOB-'' @ padStart 6 48 (show_nat (Suc (foldr max
        (map (\<lambda>s. dec_val (drop 4 s)) (filter well_formed_id (map job_id jobs))) 0)))"

section \<open>The scheduler (scheduler.js)\<close>

text \<open>
  \<open>tasks\<close> are the tasks \<open>cron.schedule\<close> has created, in order of creation, each with its
  running flag: a started task fires every day until it is stopped. \<open>sched_jobs\<close> is the
  service's \<open>Map\<close> \<open>this.jobs\<close> from a name to a task, here the task's index.
\<close>

record scheduler =
  tasks :: "bool list"
  sched_jobs :: "jstr \<rightharpoonup> nat"

definition new_scheduler :: scheduler where
  "new_scheduler = \<lparr> tasks = [], sched_jobs = Map.empty \<rparr>"

definition startDailyAutoDetection :: "scheduler \<Rightarrow> scheduler" where
  \<comment> \<open>\<open>cron.schedule(..., {scheduled: false})\<close>, \<open>this.jobs.set\<close>, \<open>task.start()\<close>\<close>
  "startDailyAutoDetection s =
     (let task = length (tasks s);
          s1 = s\<lparr>tasks := tasks s @ [False]\<rparr>;
          s2 = s1\<lparr>sched_jobs := (sched_jobs s1)(js ''dailyAutoDetection'' \<mapsto> task)\<rparr>
      in s2\<lparr>tasks := (tasks s2)[task := True]\<rparr>)"

definition stopDailyAutoDetection :: "scheduler \<Rightarrow> bool \<times> scheduler" where
  "stopDailyAutoDetection s =
     (case sched_jobs s (js ''dailyAutoDetection'') of
        Some task \<Rightarrow>
          (True, s\<lparr>tasks := (tasks s)[task := False],
                   sched_jobs := (sched_jobs s)(js ''dailyAutoDetection'' := None)\<rparr>)
      | None \<Rightarrow> (False, s))"

definition dailyAutoDetectionActive :: "scheduler \<Rightarrow> bool" where
  \<comment> \<open>\<open>getSchedulerStatus().dailyAutoDetectionActive\<close>\<close>
  "dailyAutoDetectionActive s = (sched_jobs s (js ''dailyAutoDetection'') \<noteq> None)"

definition running_tasks :: "scheduler \<Rightarrow> nat" where
  "running_tasks s = length (filter id (tasks s))"

datatype sched_call = Start | Stop

fun run_calls :: "sched_call list \<Rightarrow> scheduler \<Rightarrow> scheduler" where
  "run_calls [] s = s"
| "run_calls (Start # cs) s = run_calls cs (startDailyAutoDetection s)"
| "run_calls (Stop # cs) s = run_calls cs (snd (stopDailyAutoDetection s))"

section \<open>Team calendars\<close>

text \<open>
  A value read from an object by a computed key: \<open>undefined\<close>, a string, or a member
  inherited from \<open>Object.prototype\<close> (a function or object, truthy, with no string
  methods). Both services keep the same object literal from team name to calendar id, its
  values read from the environment; an unset variable is \<open>undefined\<close>.
\<close>

datatype jsval = Undefined | Str jstr | Inherited

definition truthy :: "jsval \<Rightarrow> bool" where
  "truthy v = (case v of Undefined \<Rightarrow> False | Str s \<Rightarrow> s \<noteq> [] | Inherited \<Rightarrow> True)"

record config =
  CALENDAR_ID_TEAM_A :: "jstr option"
  CALENDAR_ID_TEAM_B :: "jstr option"

definition env_val :: "jstr option \<Rightarrow> jsval" where
  "env_val v = (case v of None \<Rightarrow> Undefined | Some s \<Rightarrow> Str s)"

text \<open>The four team names of the object literal, Thai text as code units.\<close>

definition team_A :: jstr where
  "team_A = [3607, 3637, 3617, 32, 65]"

definition team_B :: jstr where
  "team_B = [3607, 3637, 3617, 32, 66]"

definition team_new_queue :: jstr where
  "team_new_queue = [3609, 3633, 3604, 3588, 3636, 3623, 3651, 3627, 3617, 3656]"

definition team_quotation :: jstr where
  "team_quotation = [3648, 3626, 3609, 3629, 3619, 3634, 3588, 3634]"

definition object_prototype_names :: "jstr list" where
  "object_prototype_names = map js [''constructor'', ''__proto__'', ''hasOwnProperty'',
     ''isPrototypeOf'', ''propertyIsEnumerable'', ''toLocaleString'', ''toString'', ''valueOf'',
     ''__defineGetter__'', ''__defineSetter__'', ''__lookupGetter__'', ''__lookupSetter__'']"

definition calendarIds :: "config \<Rightarrow> jstr \<Rightarrow> jsval" where
  \<comment> \<open>\<open>this.calendarIds[teamName]\<close> of googleCalendar.js\<close>
  "calendarIds cfg k =
     (if k = team_A then env_val (CALENDAR_ID_TEAM_A cfg)
      else if k = team_B then env_val (CALENDAR_ID_TEAM_B cfg)
      else if k = team_new_queue then env_val (CALENDAR_ID_TEAM_A cfg)
      else if k = team_quotation then env_val (CALENDAR_ID_TEAM_B cfg)
      else if k \<in> set object_prototype_names then Inherited
      else Undefined)"

definition queueCalendars :: "config \<Rightarrow> jstr \<Rightarrow> jsval" where
  \<comment> \<open>\<open>this.queueCalendars[team]\<close> of autoDetection.js\<close>
  "queueCalendars cfg k =
     (if k = team_A then env_val (CALENDAR_ID_TEAM_A cfg)
      else if k = team_B then env_val (CALENDAR_ID_TEAM_B cfg)
      else if k = team_new_queue then env_val (CALENDAR_ID_TEAM_A cfg)
      else if k = team_quotation then env_val (CALENDAR_ID_TEAM_B cfg)
      else if k \<in> set object_prototype_names then Inherited
      else Undefined)"

definition queueCalendarValues :: "config \<Rightarrow> jsval list" where
  \<comment> \<open>\<open>Object.values(this.queueCalendars)\<close>\<close>
  "queueCalendarValues cfg =
     [env_val (CALENDAR_ID_TEAM_A cfg), env_val (CALENDAR_ID_TEAM_B cfg),
      env_val (CALENDAR_ID_TEAM_A cfg), env_val (CALENDAR_ID_TEAM_B cfg)]"

section \<open>The job store (googleSheets.js)\<close>

text \<open>
  The sheet is the list of its data rows, row \<open>i\<close> of the list being sheet row \<open>i + 2\<close>.
  The code addresses cells by fixed column letters (status \<open>F\<close>, notes \<open>J\<close>, eventId \<open>K\<close>,
  updated_at \<open>S\<close>), which fixes the header; that header has no \<open>created_date\<close> column, so
  in \<open>getAllJobs\<close> every comparison of the sort yields \<open>NaN\<close>, the stable sort leaves the
  rows in sheet order, and the index \<open>findIndex\<close> finds is the row's index in the sheet.
\<close>

datatype js_error = Error jstr | TypeError jstr

fun find_index :: "('a \<Rightarrow> bool) \<Rightarrow> 'a list \<Rightarrow> nat option" where
  "find_index P [] = None"
| "find_index P (x # xs) =
     (if P x then Some 0 else (case find_index P xs of None \<Rightarrow> None | Some i \<Rightarrow> Some (Suc i)))"

definition not_found_message :: "jstr \<Rightarrow> jstr" where
  "not_found_message jobId = js ''Job '' @ jobId @ js '' not found''"

definition sheets_updateJobStatus ::
  "jstr \<Rightarrow> jstr \<Rightarrow> jstr \<Rightarrow> jstr \<Rightarrow> job list \<Rightarrow> js_error + job list" where
  \<comment> \<open>\<open>updateJobStatus(jobId, status, notes)\<close>; \<open>bangkokTime\<close> is the clock's reading\<close>
  "sheets_updateJobStatus bangkokTime jobId newStatus notes rows =
     (case find_index (\<lambda>j. job_id j = jobId) rows of
        None \<Rightarrow> Inl (Error (not_found_message jobId))
      | Some jobIndex \<Rightarrow>
          (let r = rows ! jobIndex;
               r1 = r\<lparr>status := newStatus, updated_at := bangkokTime\<rparr>;
               r2 = (if notes \<noteq> [] then r1\<lparr>jnotes := notes\<rparr> else r1)
           in Inr (rows[jobIndex := r2])))"

definition updateJobEventId :: "jstr \<Rightarrow> jstr \<Rightarrow> job list \<Rightarrow> js_error + job list" where
  "updateJobEventId jobId evId rows =
     (case find_index (\<lambda>j. job_id j = jobId) rows of
        None \<Rightarrow> Inl (Error (not_found_message jobId))
      | Some jobIndex \<Rightarrow> Inr (rows[jobIndex := (rows ! jobIndex)\<lparr>eventId := evId\<rparr>]))"

section \<open>Drift detection (autoDetection.js)\<close>

definition completion_sentinel :: jstr where
  "completion_sentinel = [3609, 3633, 3604, 3627, 3617, 3634, 3618, 3648, 3619, 3637, 3618,
     3610, 3619, 3657, 3629, 3618, 3649, 3621, 3657, 3623]"

text \<open>
  What the calendar service and the clock answer during one scan is a parameter:
  \<open>events_get c e\<close> is the outcome of \<open>events.get\<close> for calendar \<open>c\<close> and event id \<open>e\<close>
  (the event, a rejection with code 404, or any other rejection with its message);
  \<open>calendarList\<close> is the calendar list, \<open>None\<close> when the call is rejected;
  \<open>store_error\<close> gives, for a job id, the message with which a store call made while
  that job's status is updated is rejected, if it is; \<open>initial_read_error\<close> is the same for
  the read that opens a scan.
\<close>

datatype get_outcome = Found | NotFound | Failed jstr

record calendar_entry =
  cal_id :: jstr
  cal_summary :: jstr

record services =
  cfg :: config
  auth_ok :: bool
  events_get :: "jsval \<Rightarrow> jstr \<Rightarrow> get_outcome"
  calendarList :: "calendar_entry list option"
  store_error :: "jstr \<Rightarrow> jstr option"
  initial_read_error :: "jstr option"
  now_iso :: jstr
  bangkokTime :: jstr

text \<open>
  The metadata object handed to \<open>updateJobStatus\<close>, one of two literal shapes:
  \<open>{auto_detection, moved_from_queue, moved_to_calendar, detection_time}\<close> and
  \<open>{auto_detection, disappeared_from_queue, detection_time}\<close>, the flags all true.
\<close>

datatype metadata =
  MovedFromQueue "jstr option" jstr
  | DisappearedFromQueue jstr

record status_call =
  sc_jobId :: jstr
  sc_newStatus :: jstr
  sc_metadata :: metadata

text \<open>
  The state a scan changes: the sheet, the log line \<open>updateJobStatus\<close> writes after each
  successful update (job id, new status, metadata), and the time spent in the delay
  between jobs, in milliseconds.
\<close>

record dstate =
  sheet :: "job list"
  status_log :: "status_call list"
  slept :: nat

definition getUserCalendars :: "services \<Rightarrow> calendar_entry list" where
  "getUserCalendars sv = (case calendarList sv of None \<Rightarrow> [] | Some items \<Rightarrow> items)"

text \<open>
  The result of \<open>searchEventInPersonalCalendars\<close>; its \<open>isPersonal\<close> and \<open>event\<close> members
  are left out, \<open>checkEventMoved\<close> never reads them.
\<close>

record search_result =
  found :: bool
  calendarId :: "jstr option"
  calendarName :: "jstr option"

fun search_loop :: "services \<Rightarrow> jstr \<Rightarrow> calendar_entry list \<Rightarrow> search_result" where
  "search_loop sv evId [] = \<lparr> found = False, calendarId = None, calendarName = None \<rparr>"
| "search_loop sv evId (c # cs) =
     (if Str (cal_id c) \<in> set (queueCalendarValues (cfg sv)) then search_loop sv evId cs
      else (case events_get sv (Str (cal_id c)) evId of
              Found \<Rightarrow> \<lparr> found = True, calendarId = Some (cal_id c),
                         calendarName = Some (cal_summary c) \<rparr>
            | NotFound \<Rightarrow> search_loop sv evId cs
            | Failed m \<Rightarrow> search_loop sv evId cs))"

definition searchEventInPersonalCalendars :: "services \<Rightarrow> jstr \<Rightarrow> search_result" where
  "searchEventInPersonalCalendars sv evId = search_loop sv evId (getUserCalendars sv)"

record move_result =
  mr_moved :: bool
  mr_deletedFromQueue :: bool
  mr_newCalendarId :: "jstr option"
  mr_newCalendarName :: "jstr option"
  mr_error :: "jstr option"

definition checkEventMoved :: "services \<Rightarrow> jstr \<Rightarrow> jstr \<Rightarrow> jsval \<Rightarrow> move_result" where
  "checkEventMoved sv jobId originalEventId queueCalendarId =
     (case events_get sv queueCalendarId originalEventId of
        Found \<Rightarrow> \<lparr> mr_moved = False, mr_deletedFromQueue = False, mr_newCalendarId = None,
                   mr_newCalendarName = None, mr_error = None \<rparr>
      | NotFound \<Rightarrow>
          (let moveResult = searchEventInPersonalCalendars sv originalEventId
           in \<lparr> mr_moved = found moveResult, mr_deletedFromQueue = True,
                mr_newCalendarId = calendarId moveResult,
                mr_newCalendarName = calendarName moveResult, mr_error = None \<rparr>)
      | Failed m \<Rightarrow> \<lparr> mr_moved = False, mr_deletedFromQueue = False, mr_newCalendarId = None,
                      mr_newCalendarName = None, mr_error = Some m \<rparr>)"

text \<open>
  \<open>updateJobStatus\<close> of the detection service: it looks the job up, has the sheet service
  write the status (no notes), and logs the metadata.
\<close>

definition updateJobStatus ::
  "services \<Rightarrow> jstr \<Rightarrow> jstr \<Rightarrow> metadata \<Rightarrow> dstate \<Rightarrow> js_error + dstate" where
  "updateJobStatus sv jobId newStatus md st =
     (case store_error sv jobId of
        Some m \<Rightarrow> Inl (Error m)
      | None \<Rightarrow>
          (case find_index (\<lambda>j. job_id j = jobId) (sheet st) of
             None \<Rightarrow> Inl (Error (not_found_message jobId))
           | Some jobIndex \<Rightarrow>
               (case sheets_updateJobStatus (bangkokTime sv) jobId newStatus [] (sheet st) of
                  Inl e \<Rightarrow> Inl e
                | Inr rows \<Rightarrow>
                    Inr (st\<lparr>sheet := rows,
                            status_log := status_log st @
                              [\<lparr> sc_jobId = jobId, sc_newStatus = newStatus,
                                 sc_metadata = md \<rparr>]\<rparr>))))"

text \<open>The object \<open>processJobAutoDetection\<close> returns; an absent member is \<open>None\<close>.\<close>

record detect_result =
  processed :: bool
  action :: "jstr option"
  newStatus :: "jstr option"
  reason :: "jstr option"
  dr_error :: "jstr option"

definition not_processed :: "jstr \<Rightarrow> detect_result" where
  "not_processed why = \<lparr> processed = False, action = None, newStatus = None,
     reason = Some why, dr_error = None \<rparr>"

definition status_updated :: "jstr \<Rightarrow> detect_result" where
  "status_updated why = \<lparr> processed = True, action = Some (js ''status_updated''),
     newStatus = Some completion_sentinel, reason = Some why, dr_error = None \<rparr>"

definition message_of :: "js_error \<Rightarrow> jstr" where
  "message_of e = (case e of Error m \<Rightarrow> m | TypeError m \<Rightarrow> m)"

text \<open>A member that may be absent: its text in a template literal, and its truthiness.\<close>

definition or_none :: "jstr option \<Rightarrow> jstr" where
  "or_none v = (case v of None \<Rightarrow> js ''undefined'' | Some s \<Rightarrow> s)"

definition truthy_opt :: "jstr option \<Rightarrow> bool" where
  "truthy_opt v = (case v of None \<Rightarrow> False | Some s \<Rightarrow> s \<noteq> [])"

text \<open>The body of the \<open>try\<close> block of \<open>processJobAutoDetection\<close>: it may throw.\<close>

definition processJob_try :: "services \<Rightarrow> job \<Rightarrow> dstate \<Rightarrow> (js_error + detect_result) \<times> dstate" where
  "processJob_try sv j st =
     (let calendarEventId = or_else (eventId j) (calendar_event_id j)
      in if calendarEventId = [] \<or> team j = [] then
           (Inr (not_processed (js ''No calendar event or team specified'')), st)
         else
           (let queueCalendarId = queueCalendars (cfg sv) (team j)
            in if \<not> truthy queueCalendarId then
                 (Inr (not_processed (js ''No queue calendar configured for team: '' @ team j)), st)
               else
                 (let moveResult = checkEventMoved sv (job_id j) calendarEventId queueCalendarId
                  in if mr_moved moveResult \<and> truthy_opt (mr_newCalendarId moveResult) then
                       (case updateJobStatus sv (job_id j) completion_sentinel
                               (MovedFromQueue (mr_newCalendarName moveResult) (now_iso sv)) st of
                          Inl e \<Rightarrow> (Inl e, st)
                        | Inr st' \<Rightarrow>
                            (Inr (status_updated (js ''Event moved to calendar: ''
                                    @ or_none (mr_newCalendarName moveResult))), st'))
                     else if mr_deletedFromQueue moveResult \<and> \<not> mr_moved moveResult then
                       (case updateJobStatus sv (job_id j) completion_sentinel
                               (DisappearedFromQueue (now_iso sv)) st of
                          Inl e \<Rightarrow> (Inl e, st)
                        | Inr st' \<Rightarrow>
                            (Inr (status_updated (js
                               ''Event disappeared from queue calendar - assumed completed by technician'')),
                             st'))
                     else (Inr (not_processed (js ''No changes detected'')), st))))"

text \<open>\<open>processJobAutoDetection\<close>: the \<open>catch\<close> turns whatever was thrown into a result.\<close>

definition processJobAutoDetection :: "services \<Rightarrow> job \<Rightarrow> dstate \<Rightarrow> (js_error + detect_result) \<times> dstate" where
  "processJobAutoDetection sv j st =
     (case processJob_try sv j st of
        (Inl e, st') \<Rightarrow>
          (Inr \<lparr> processed = False, action = None, newStatus = None, reason = None,
                 dr_error = Some (message_of e) \<rparr>, st')
      | (Inr r, st') \<Rightarrow> (Inr r, st'))"

text \<open>The summary of a scan and its per-job entries, \<open>{jobId, result}\<close> or \<open>{jobId, error}\<close>.\<close>

datatype detail = Result jstr detect_result | Failure jstr jstr

record run_summary =
  totalChecked :: nat
  statusUpdated :: nat
  moved :: nat
  deleted :: nat
  errors :: nat
  details :: "detail list"

definition eligible :: "job \<Rightarrow> bool" where
  \<comment> \<open>the filter of \<open>runDailyAutoDetection\<close>\<close>
  "eligible j = (or_else (eventId j) (calendar_event_id j) \<noteq> [] \<and> team j \<noteq> []
     \<and> status j \<notin> set [js ''Completed'', js ''Cancelled'', completion_sentinel])"

text \<open>One turn of the \<open>for\<close> loop: the \<open>try\<close>, its \<open>catch\<close>, and the delay of 100 ms.\<close>

definition scan_step :: "services \<Rightarrow> job \<Rightarrow> run_summary \<times> dstate \<Rightarrow> run_summary \<times> dstate" where
  "scan_step sv j acc =
     (let (results, st) = acc;
          (outcome, st1) = processJobAutoDetection sv j st;
          results1 =
            (case outcome of
               Inr result \<Rightarrow>
                 (let r1 = (if processed result \<and> action result = Some (js ''status_updated'')
                            then (let r0 = results\<lparr>statusUpdated := statusUpdated results + 1\<rparr>
                                  in if newStatus result = Some completion_sentinel
                                     then r0\<lparr>moved := moved r0 + 1\<rparr>
                                     else if newStatus result = Some (js ''Cancelled'')
                                     then r0\<lparr>deleted := deleted r0 + 1\<rparr>
                                     else r0)
                            else results)
                  in r1\<lparr>details := details r1 @ [Result (job_id j) result]\<rparr>)
             | Inl e \<Rightarrow>
                 results\<lparr>errors := errors results + 1,
                          details := details results @ [Failure (job_id j) (message_of e)]\<rparr>)
      in (results1, st1\<lparr>slept := slept st1 + 100\<rparr>))"

definition runDailyAutoDetection :: "services \<Rightarrow> dstate \<Rightarrow> (js_error + run_summary) \<times> dstate" where
  "runDailyAutoDetection sv st =
     (if \<not> auth_ok sv then (Inl (Error (js ''Failed to initialize authentication'')), st)
      else (case initial_read_error sv of
              Some m \<Rightarrow> (Inl (Error m), st)
            | None \<Rightarrow>
                (let jobsWithCalendar = filter eligible (sheet st);
                     results = \<lparr> totalChecked = length jobsWithCalendar, statusUpdated = 0,
                                 moved = 0, deleted = 0, errors = 0, details = [] \<rparr>;
                     (results', st') = fold (scan_step sv) jobsWithCalendar (results, st)
                 in (Inr results', st'))))"

text \<open>
  Observers for the statements: the other reachable calendars that hold an event (listed,
  not a queue calendar, and answering the direct lookup), and what a detail entry says.
\<close>

definition holding_calendars :: "services \<Rightarrow> jstr \<Rightarrow> calendar_entry list" where
  "holding_calendars sv evId =
     filter (\<lambda>c. Str (cal_id c) \<notin> set (queueCalendarValues (cfg sv))
                 \<and> events_get sv (Str (cal_id c)) evId = Found) (getUserCalendars sv)"





subsection \<open>A scan scenario\<close>

text \<open>
  Two queue calendars and a technician's calendar. Event \<open>ev1\<close> is still in queue A,
  \<open>ev2\<close> is in the technician's calendar, \<open>ev3\<close> and \<open>ev4\<close> are nowhere; the store rejects
  writes for \<open>JOB-000004\<close>. The fifth row has no event.
\<close>

definition scenario_services :: services where
  "scenario_services =
     \<lparr> cfg = \<lparr> CALENDAR_ID_TEAM_A = Some (js ''queue-a''),
                CALENDAR_ID_TEAM_B = Some (js ''queue-b'') \<rparr>,
       auth_ok = True,
       events_get = (\<lambda>c e. if c = Str (js ''queue-a'') \<and> e = js ''ev1'' then Found
                            else if c = Str (js ''tech-1'') \<and> e = js ''ev2'' then Found
                            else NotFound),
       calendarList = Some [\<lparr> cal_id = js ''queue-a'', cal_summary = js ''Queue A'' \<rparr>,
                            \<lparr> cal_id = js ''tech-1'', cal_summary = js ''Somchai'' \<rparr>],
       store_error = (\<lambda>i. if i = js ''JOB-000004'' then Some (js ''quota exceeded'') else None),
       initial_read_error = None,
       now_iso = js ''2025-08-01T03:00:00.000Z'',
       bangkokTime = js ''1/8/2568 10:00:00'' \<rparr>"

definition scheduled_job :: "string \<Rightarrow> string \<Rightarrow> job" where
  "scheduled_job i e =
     blank_job\<lparr>job_id := js i, team := team_A, eventId := js e, status := js ''Scheduled''\<rparr>"

definition scenario_state :: dstate where
  "scenario_state =
     \<lparr> sheet = [scheduled_job ''JOB-000001'' ''ev1'', scheduled_job ''JOB-000002'' ''ev2'',
                 scheduled_job ''JOB-000003'' ''ev3'', scheduled_job ''JOB-000004'' ''ev4'',
                 blank_job\<lparr>job_id := js ''JOB-000005''\<rparr>],
       status_log = [], slept = 0 \<rparr>"

section \<open>Calendar dates\<close>

text \<open>
  A calendar day, and \<open>new Date(s)\<close> for the date-only form \<open>YYYY-MM-DD\<close>, the form of the
  date inputs and of \<open>toISOString\<close>: midnight UTC of the day. Within the form V8 takes any
  day up to 31 and carries the excess into the next month. Every other text is left to the
  engine, see \<open>parseDate\<close> below.
\<close>

record cdate =
  year :: nat
  month :: nat
  day :: nat

definition leap_year :: "nat \<Rightarrow> bool" where
  "leap_year y = (y mod 4 = 0 \<and> (y mod 100 \<noteq> 0 \<or> y mod 400 = 0))"

definition days_in_month :: "nat \<Rightarrow> nat \<Rightarrow> nat" where
  "days_in_month y m =
     (if m = 2 then (if leap_year y then 29 else 28)
      else if m = 4 \<or> m = 6 \<or> m = 9 \<or> m = 11 then 30 else 31)"

definition valid_date :: "cdate \<Rightarrow> bool" where
  "valid_date c = (1 \<le> month c \<and> month c \<le> 12 \<and> 1 \<le> day c
     \<and> day c \<le> days_in_month (year c) (month c))"

definition date_only :: "jstr \<Rightarrow> cdate option" where
  "date_only s =
     (if pat s ''dddd-dd-dd'' then
        (let y = dec_val (take 4 s); m = dec_val (take 2 (drop 5 s)); d = dec_val (drop 8 s)
         in if 1 \<le> m \<and> m \<le> 12 \<and> 1 \<le> d \<and> d \<le> 31 then
              Some (if d \<le> days_in_month y m then \<lparr> year = y, month = m, day = d \<rparr>
                    else \<lparr> year = y, month = m + 1, day = d - days_in_month y m \<rparr>)
            else None)
      else None)"

text \<open>\<open>d.toISOString().split('T')[0]\<close>; years past 9999 take the sign and six digits.\<close>

definition isoDate :: "cdate \<Rightarrow> jstr" where
  "isoDate c =
     (if year c \<le> 9999 then padStart 4 48 (show_nat (year c))
      else 43 # padStart 6 48 (show_nat (year c)))
     @ [45] @ padStart 2 48 (show_nat (month c)) @ [45] @ padStart 2 48 (show_nat (day c))"

text \<open>The next calendar day, and the order of calendar days.\<close>

definition next_day :: "cdate \<Rightarrow> cdate" where
  "next_day c =
     (if day c < days_in_month (year c) (month c) then c\<lparr>day := day c + 1\<rparr>
      else if month c < 12 then c\<lparr>month := month c + 1, day := 1\<rparr>
      else \<lparr> year = year c + 1, month = 1, day = 1 \<rparr>)"

definition date_le :: "cdate \<Rightarrow> cdate \<Rightarrow> bool" where
  "date_le a b = (year a < year b \<or> (year a = year b \<and>
     (month a < month b \<or> (month a = month b \<and> day a \<le> day b))))"

text \<open>
  The calendar days from one day to another, both included: the days the range loop visits
  when both of its \<open>Date\<close> objects stand at the same time of day (see \<open>range_days\<close> below).
\<close>

function days_loop :: "cdate \<Rightarrow> cdate \<Rightarrow> cdate list" where
  "days_loop currentDate endDate =
     (if date_le currentDate endDate then currentDate # days_loop (next_day currentDate) endDate
      else [])"
  by pat_completeness auto
termination
proof (relation "measures [\<lambda>(c, e). Suc (year e) - year c, \<lambda>(c, e). 13 - month c,
    \<lambda>(c, e). 32 - day c]")
  show "wf (measures [\<lambda>(c, e). Suc (year e) - year c, \<lambda>(c, e). 13 - month c,
    \<lambda>(c, e). 32 - day c])"
    by simp
next
  fix currentDate endDate
  assume "date_le currentDate endDate"
  then show "((next_day currentDate, endDate), (currentDate, endDate))
    \<in> measures [\<lambda>(c, e). Suc (year e) - year c, \<lambda>(c, e). 13 - month c, \<lambda>(c, e). 32 - day c]"
    by (auto simp: next_day_def date_le_def days_in_month_def split: if_splits)
qed

declare days_loop.simps [simp del]

section \<open>Calendar sync (googleCalendar.js)\<close>

text \<open>
  An event of the calendar service. A timed event's start and end hold the text handed to
  \<open>new Date\<close>, \<open>{date}T{HH:MM}:00+07:00\<close>; \<open>toISOString\<close> only renders the same instant
  in UTC. An all-day event holds the date.
\<close>

datatype moment = OnDate jstr | AtTime jstr

record event =
  ev_id :: jstr
  summary :: jstr
  description :: jstr
  location :: jstr
  attendees :: "jstr list"
  reminder_minutes :: "nat list"
  ev_start :: moment
  ev_end :: moment

text \<open>The Thai labels of the event body, as code units.\<close>

definition txt_unspecified :: jstr where
  "txt_unspecified = [3652, 3617, 3656, 3619, 3632, 3610, 3640]"

definition txt_none :: jstr where
  "txt_none = [3652, 3617, 3656, 3617, 3637]"

definition txt_customer :: jstr where
  "txt_customer = [3621, 3641, 3585, 3588, 3657, 3634]"

definition lbl_type :: jstr where
  "lbl_type = [3611, 3619, 3632, 3648, 3616, 3607, 3591, 3634, 3609, 58, 32]"

definition lbl_customer :: jstr where
  "lbl_customer = [3621, 3641, 3585, 3588, 3657, 3634, 58, 32]"

definition lbl_phone :: jstr where
  "lbl_phone = [3650, 3607, 3619, 58, 32]"

definition lbl_address :: jstr where
  "lbl_address = [3607, 3637, 3656, 3629, 3618, 3641, 3656, 58, 32]"

definition lbl_status :: jstr where
  "lbl_status = [3626, 3606, 3634, 3609, 3632, 58, 32]"

definition lbl_window :: jstr where
  "lbl_window = [3594, 3656, 3623, 3591, 3648, 3623, 3621, 3634, 58, 32]"

definition lbl_details :: jstr where
  "lbl_details = [3619, 3634, 3618, 3621, 3632, 3648, 3629, 3637, 3618, 3604, 58, 32]"

definition lbl_notes :: jstr where
  "lbl_notes = [3627, 3617, 3634, 3618, 3648, 3627, 3605, 3640, 58, 32]"

definition event_summary :: "job \<Rightarrow> jstr" where
  "event_summary j =
     job_id j @ js '': '' @ or_else (customer j) (or_else (customer_name j) txt_customer)"

definition event_description :: "job \<Rightarrow> jstr" where
  "event_description j =
     lbl_type @ or_else (jtype j) txt_unspecified @ [10]
     @ lbl_customer @ or_else (customer j) (or_else (customer_name j) txt_unspecified) @ [10]
     @ lbl_phone @ or_else (phone j) (or_else (customer_phone j) txt_unspecified) @ [10]
     @ lbl_address @ or_else (address j) (or_else (customer_address j) txt_unspecified) @ [10]
     @ lbl_status @ or_else (status j) txt_unspecified @ [10]
     @ lbl_window @ or_else (time_window j) txt_unspecified @ [10]
     @ lbl_details @ or_else (jdetails j) (or_else (job_description j) txt_none) @ [10]
     @ lbl_notes @ or_else (jnotes j) txt_none"

text \<open>
  \<open>new Date(s)\<close> for the texts \<open>createSingleDateEvent\<close> builds, \<open>{date}T{HH:MM}:00+07:00\<close>,
  when the date part has the form \<open>YYYY-MM-DD\<close>: valid when the date part is a date of that
  form and the clock is 00:00 to 23:59, or 24:00.
\<close>

definition valid_clock :: "jstr \<Rightarrow> bool" where
  "valid_clock t = (pat t ''dd:dd'' \<and>
     ((dec_val (take 2 t) \<le> 23 \<and> dec_val (drop 3 t) \<le> 59)
      \<or> (dec_val (take 2 t) = 24 \<and> dec_val (drop 3 t) = 0)))"

text \<open>
  The calendar service as the sync sees it. Each calendar is the list of its events;
  \<open>issued\<close> counts the ids the service has given out. The sheet rows and the log of failed
  write-backs complete the state.
\<close>

record world =
  calendars :: "jstr \<Rightarrow> event list"
  issued :: nat
  store_rows :: "job list"
  writeback_errors :: "(jstr \<times> jstr) list"

text \<open>
  What lies outside the code is a parameter of the model. \<open>events_list c evs q\<close> is the
  service's answer to \<open>events.list\<close> with the options of the source (free-text query \<open>q\<close>,
  at most ten results, ordered by start time) on calendar \<open>c\<close> holding \<open>evs\<close>: the items,
  or \<open>None\<close> when the call is rejected. \<open>insert_rejected\<close> and \<open>update_rejected\<close> say whether
  the service rejects an \<open>events.insert\<close> or \<open>events.update\<close> call, and with which error.
  \<open>other_date s\<close> is what the engine's \<open>new Date(s)\<close> makes of a text \<open>s\<close> outside the forms
  modelled here (the language standard leaves those to the engine, and the result depends on
  the server's time zone): an instant, given as its UTC day and the milliseconds into that
  day, or \<open>None\<close> for an invalid date.
\<close>

type_synonym list_api = "jstr \<Rightarrow> event list \<Rightarrow> jstr \<Rightarrow> event list option"

type_synonym instant = "cdate \<times> nat"

record calendar_host =
  events_list :: list_api
  insert_rejected :: "jstr \<Rightarrow> event \<Rightarrow> world \<Rightarrow> js_error option"
  update_rejected :: "jstr \<Rightarrow> jstr \<Rightarrow> event \<Rightarrow> world \<Rightarrow> js_error option"
  other_date :: "jstr \<Rightarrow> instant option"

text \<open>
  \<open>new Date(s)\<close>: midnight UTC of the day for the date-only form, the engine's answer for
  every other text. \<open>isNaN(d.getTime())\<close> is the test for \<open>None\<close>.
\<close>

definition parseDate :: "calendar_host \<Rightarrow> jstr \<Rightarrow> instant option" where
  "parseDate hst s =
     (if pat s ''dddd-dd-dd'' then map_option (\<lambda>c. (c, 0)) (date_only s)
      else other_date hst s)"

definition date_time_valid :: "calendar_host \<Rightarrow> jstr \<Rightarrow> bool" where
  "date_time_valid hst s =
     (if pat s ''dddd-dd-ddTdd:dd:00+07:00'' then
        date_only (take 10 s) \<noteq> None \<and> valid_clock (take 5 (drop 11 s))
      else other_date hst s \<noteq> None)"

text \<open>
  \<open>a <= b\<close> on \<open>Date\<close> objects compares the instants. The values \<open>currentDate\<close> takes in
  the loop
  \<open>for (currentDate = new Date(startDate); currentDate <= endDate; currentDate.setDate(...))\<close>:
  \<open>setDate(getDate() + 1)\<close> moves the instant by 24 hours, to the same time of the next day
  (the server's time zone has no daylight saving).
\<close>

definition instant_le :: "instant \<Rightarrow> instant \<Rightarrow> bool" where
  "instant_le s t = ((fst s \<noteq> fst t \<and> date_le (fst s) (fst t)) \<or> (fst s = fst t \<and> snd s \<le> snd t))"

function range_days :: "instant \<Rightarrow> instant \<Rightarrow> instant list" where
  "range_days currentDate endDate =
     (if instant_le currentDate endDate then
        currentDate # range_days (next_day (fst currentDate), snd currentDate) endDate
      else [])"
  by pat_completeness auto
termination
proof (relation "measures [\<lambda>(c, e). Suc (year (fst e)) - year (fst c), \<lambda>(c, e). 13 - month (fst c),
    \<lambda>(c, e). 32 - day (fst c)]")
  show "wf (measures [\<lambda>(c, e). Suc (year (fst e)) - year (fst c), \<lambda>(c, e). 13 - month (fst c),
    \<lambda>(c, e). 32 - day (fst c)])"
    by simp
next
  fix currentDate endDate :: instant
  assume "instant_le currentDate endDate"
  then have "date_le (fst currentDate) (fst endDate)"
    by (auto simp: instant_le_def date_le_def)
  then show "(((next_day (fst currentDate), snd currentDate), endDate), (currentDate, endDate))
    \<in> measures [\<lambda>(c, e). Suc (year (fst e)) - year (fst c), \<lambda>(c, e). 13 - month (fst c),
        \<lambda>(c, e). 32 - day (fst c)]"
    by (auto simp: next_day_def date_le_def days_in_month_def split: if_splits)
qed

declare range_days.simps [simp del]

definition new_event_id :: "nat \<Rightarrow> jstr" where
  "new_event_id n = js ''evt'' @ show_nat n"

text \<open>
  \<open>events.insert\<close> and \<open>events.update\<close>: rejected with the service's error, or done. An
  insert appends the event under a new id; an update replaces the resource of the event with
  the given id, and the service answers Not Found when the calendar holds no such event.
\<close>

definition events_insert ::
  "calendar_host \<Rightarrow> jstr \<Rightarrow> event \<Rightarrow> world \<Rightarrow> (js_error + event) \<times> world" where
  "events_insert hst cid ev w =
     (case insert_rejected hst cid ev w of
        Some err \<Rightarrow> (Inl err, w)
      | None \<Rightarrow>
          (let e = ev\<lparr>ev_id := new_event_id (issued w)\<rparr>
           in (Inr e, w\<lparr>calendars := (calendars w)(cid := calendars w cid @ [e]),
                        issued := issued w + 1\<rparr>)))"

definition events_update ::
  "calendar_host \<Rightarrow> jstr \<Rightarrow> jstr \<Rightarrow> event \<Rightarrow> world \<Rightarrow> (js_error + event) \<times> world" where
  "events_update hst cid evId ev w =
     (case update_rejected hst cid evId ev w of
        Some err \<Rightarrow> (Inl err, w)
      | None \<Rightarrow>
          (if \<not> list_ex (\<lambda>x. ev_id x = evId) (calendars w cid) then
             (Inl (Error (js ''Not Found'')), w)
           else
             (let e = ev\<lparr>ev_id := evId\<rparr>
              in (Inr e, w\<lparr>calendars := (calendars w)
                     (cid := map (\<lambda>x. if ev_id x = evId then e else x) (calendars w cid))\<rparr>))))"

definition title_matches :: "jstr \<Rightarrow> event \<Rightarrow> bool" where
  \<comment> \<open>\<open>event.summary && event.summary.includes(jobId)\<close>\<close>
  "title_matches jobId e = (summary e \<noteq> [] \<and> js_includes (summary e) jobId)"

definition findExistingEvent :: "calendar_host \<Rightarrow> jstr \<Rightarrow> jstr \<Rightarrow> world \<Rightarrow> event option" where
  "findExistingEvent hst cid jobId w =
     (case events_list hst cid (calendars w cid) jobId of
        None \<Rightarrow> None
      | Some items \<Rightarrow> find (title_matches jobId) items)"

definition date_time_text :: "jstr \<Rightarrow> jstr option \<Rightarrow> string \<Rightarrow> jstr" where
  "date_time_text scheduledDate normalized dflt =
     (case normalized of
        Some t \<Rightarrow> scheduledDate @ js ''T'' @ t @ js '':00+07:00''
      | None \<Rightarrow> scheduledDate @ js ''T'' @ js dflt @ js '':00+07:00'')"

text \<open>
  \<open>createSingleDateEvent\<close> in its three parts: the event object it builds, the upsert
  (lines 345 to 364 of the source), and the write-back of the event id with its
  \<open>try\<close>/\<open>catch\<close> (lines 366 to 378). An error of the upsert is not caught: it leaves
  \<open>createSingleDateEvent\<close> and \<open>syncJobToCalendar\<close>.
\<close>

definition event_resource :: "job \<Rightarrow> jstr \<Rightarrow> jstr \<Rightarrow> event" where
  "event_resource j startDateTimeStr endDateTimeStr =
     (let isAllDay = (time_window j = js ''All Day'')
      in \<lparr> ev_id = [], summary = event_summary j, description = event_description j,
           location = or_else (address j) (customer_address j),
           attendees = [], reminder_minutes = [60, 15],
           ev_start = (if isAllDay then OnDate (date j) else AtTime startDateTimeStr),
           ev_end = (if isAllDay then OnDate (date j) else AtTime endDateTimeStr) \<rparr>)"

definition upsert_event ::
  "calendar_host \<Rightarrow> jstr \<Rightarrow> jstr \<Rightarrow> event \<Rightarrow> world \<Rightarrow> (js_error + event) \<times> world" where
  "upsert_event hst cid jobId ev w =
     (case findExistingEvent hst cid jobId w of
        Some existingEvent \<Rightarrow> events_update hst cid (ev_id existingEvent) ev w
      | None \<Rightarrow> events_insert hst cid ev w)"

definition write_back :: "jstr \<Rightarrow> event \<Rightarrow> world \<Rightarrow> world" where
  "write_back jobId result w =
     (if ev_id result \<noteq> [] then
        (case updateJobEventId jobId (ev_id result) (store_rows w) of
           Inr rows \<Rightarrow> w\<lparr>store_rows := rows\<rparr>
         | Inl err \<Rightarrow>
             w\<lparr>writeback_errors := writeback_errors w @ [(jobId, message_of err)]\<rparr>)
      else w)"

definition createSingleDateEvent ::
  "calendar_host \<Rightarrow> job \<Rightarrow> jstr \<Rightarrow> world \<Rightarrow> (js_error + event option) \<times> world" where
  "createSingleDateEvent hst j cid w =
     (let scheduledDate = date j;
          (startTime, endTime) = repairTimes j
      in if scheduledDate = [] then (Inr None, w)
         else
           (let startDateTimeStr = date_time_text scheduledDate (normalizeTime startTime) ''09:00'';
                endDateTimeStr = date_time_text scheduledDate (normalizeTime endTime) ''17:00''
            in if \<not> date_time_valid hst startDateTimeStr \<or> \<not> date_time_valid hst endDateTimeStr
               then (Inl (Error (js ''Invalid date or time format provided'')), w)
               else
                 (let ev = event_resource j startDateTimeStr endDateTimeStr
                  in case upsert_event hst cid (job_id j) ev w of
                       (Inl err, w1) \<Rightarrow> (Inl err, w1)
                     | (Inr result, w1) \<Rightarrow>
                         (Inr (Some result), write_back (job_id j) result w1))))"

text \<open>
  The body of the range loop, over the days the loop visits; \<open>dateStr\<close> is the UTC day of
  \<open>currentDate\<close>.
\<close>

fun range_loop ::
  "calendar_host \<Rightarrow> job \<Rightarrow> jstr \<Rightarrow> cdate list \<Rightarrow> event list \<Rightarrow> world
     \<Rightarrow> (js_error + event list) \<times> world" where
  "range_loop hst j cid [] events w = (Inr events, w)"
| "range_loop hst j cid (d # ds) events w =
     (let dateStr = isoDate d;
          dailyJob = j\<lparr>date := dateStr, job_id := job_id j @ js ''-'' @ dateStr\<rparr>
      in case createSingleDateEvent hst dailyJob cid w of
           (Inl err, w1) \<Rightarrow> (Inl err, w1)
         | (Inr None, w1) \<Rightarrow> range_loop hst j cid ds events w1
         | (Inr (Some ev), w1) \<Rightarrow> range_loop hst j cid ds (events @ [ev]) w1)"

definition createDateRangeEvents ::
  "calendar_host \<Rightarrow> job \<Rightarrow> jstr \<Rightarrow> world \<Rightarrow> (js_error + event list) \<times> world" where
  "createDateRangeEvents hst j cid w =
     (if start_date j = [] \<or> end_date j = [] then
        (Inl (Error (js ''Date range jobs require start_date and end_date'')), w)
      else
        (case (parseDate hst (start_date j), parseDate hst (end_date j)) of
           (Some startDate, Some endDate) \<Rightarrow>
             range_loop hst j cid (map fst (range_days startDate endDate)) [] w
         | _ \<Rightarrow> (Inl (Error (js ''Invalid date format in start_date or end_date'')), w)))"

text \<open>What \<open>syncJobToCalendar\<close> returns: \<open>null\<close>, one event, or the events of a range.\<close>

datatype sync_result = Skipped | Single event | Many "event list"

definition repaired_team :: "job \<Rightarrow> jstr" where
  "repaired_team j =
     (if team j \<noteq> [] \<and> js_includes (team j) (js ''???'') then
        (if js_includes (team j) (js ''A'') then team_A
         else if js_includes (team j) (js ''B'') then team_B
         else team j)
      else team j)"

definition syncJobToCalendar ::
  "calendar_host \<Rightarrow> config \<Rightarrow> job \<Rightarrow> world \<Rightarrow> (js_error + sync_result) \<times> world" where
  "syncJobToCalendar hst cf j w =
     (let teamName = repaired_team j;
          calendarId = calendarIds cf teamName
      in if \<not> truthy calendarId then (Inr Skipped, w)
         else
           (case calendarId of
              Str cid \<Rightarrow>
                (if date_type j = js ''range'' \<and> start_date j \<noteq> [] \<and> end_date j \<noteq> [] then
                   (case createDateRangeEvents hst j cid w of
                      (Inl err, w1) \<Rightarrow> (Inl err, w1)
                    | (Inr events, w1) \<Rightarrow> (Inr (Many events), w1))
                 else
                   (case createSingleDateEvent hst j cid w of
                      (Inl err, w1) \<Rightarrow> (Inl err, w1)
                    | (Inr None, w1) \<Rightarrow> (Inr Skipped, w1)
                    | (Inr (Some ev), w1) \<Rightarrow> (Inr (Single ev), w1)))
            | Inherited \<Rightarrow> (Inl (TypeError (js ''calendarId.substring is not a function'')), w)
            | Undefined \<Rightarrow> (Inr Skipped, w)))"

text \<open>
  Names for the statements: the clock texts \<open>createSingleDateEvent\<close> ends up with (the
  normalised time, or the default where normalisation fails), the two texts it hands to
  \<open>new Date\<close>, the event it builds from them, and the per-day view of a range job with its
  derived identifier.
\<close>

definition start_clock :: "job \<Rightarrow> jstr" where
  "start_clock j =
     (case normalizeTime (fst (repairTimes j)) of Some t \<Rightarrow> t | None \<Rightarrow> js ''09:00'')"

definition end_clock :: "job \<Rightarrow> jstr" where
  "end_clock j =
     (case normalizeTime (snd (repairTimes j)) of Some t \<Rightarrow> t | None \<Rightarrow> js ''17:00'')"

definition start_text :: "job \<Rightarrow> jstr" where
  "start_text j = date j @ js ''T'' @ start_clock j @ js '':00+07:00''"

definition end_text :: "job \<Rightarrow> jstr" where
  "end_text j = date j @ js ''T'' @ end_clock j @ js '':00+07:00''"

definition event_payload :: "job \<Rightarrow> event" where
  "event_payload j = event_resource j (start_text j) (end_text j)"

definition derived_id :: "job \<Rightarrow> cdate \<Rightarrow> jstr" where
  "derived_id j d = job_id j @ js ''-'' @ isoDate d"

definition daily_job :: "job \<Rightarrow> cdate \<Rightarrow> job" where
  "daily_job j d = j\<lparr>date := isoDate d, job_id := derived_id j d\<rparr>"

text \<open>
  A job is a range job when \<open>syncJobToCalendar\<close> takes its first branch (line 81 of the
  source).
\<close>

definition is_range_job :: "job \<Rightarrow> bool" where
  "is_range_job j = (date_type j = js ''range'' \<and> start_date j \<noteq> [] \<and> end_date j \<noteq> [])"

text \<open>
  Conditions on the service, for the statements that need them: the service accepts every
  write; the answers of \<open>events.list\<close> hold events of the
  calendar asked; and the search does not overlook the job: when the calendar holds an
  event whose title contains the id, so does the answer.
\<close>

definition accepts_writes :: "calendar_host \<Rightarrow> bool" where
  "accepts_writes hst = ((\<forall>c ev w. insert_rejected hst c ev w = None)
     \<and> (\<forall>c i ev w. update_rejected hst c i ev w = None))"

definition lists_calendar :: "calendar_host \<Rightarrow> bool" where
  "lists_calendar hst =
     (\<forall>c evs q items. events_list hst c evs q = Some items \<longrightarrow> set items \<subseteq> set evs)"


section \<open>Example data for the sync\<close>

text \<open>
  A calendar service whose \<open>events.list\<close> answers with the first ten events that hold the
  query in their title, description or location and which accepts every write, on an engine
  that takes no date text but the forms modelled; a configuration with both queue
  calendars; a service with empty calendars over a given sheet; and three jobs: a three-day
  range job, a single-date job whose times no shape of the normaliser accepts, and a sheet
  that holds the range job.
\<close>

definition title_search :: list_api where
  "title_search cid evs q =
     Some (take 10 (filter (\<lambda>e. js_includes (summary e) q \<or> js_includes (description e) q
                              \<or> js_includes (location e) q) evs))"

definition plain_host :: calendar_host where
  "plain_host = \<lparr> events_list = title_search, insert_rejected = (\<lambda>c ev w. None),
                   update_rejected = (\<lambda>c i ev w. None), other_date = (\<lambda>s. None) \<rparr>"

definition two_queues :: config where
  "two_queues = \<lparr> CALENDAR_ID_TEAM_A = Some (js ''queue-a''),
                   CALENDAR_ID_TEAM_B = Some (js ''queue-b'') \<rparr>"

definition fresh_world :: "job list \<Rightarrow> world" where
  "fresh_world rows = \<lparr> calendars = (\<lambda>c. []), issued = 0, store_rows = rows,
                         writeback_errors = [] \<rparr>"

definition range_job :: job where
  "range_job = blank_job\<lparr>job_id := js ''JOB-000007'', team := team_A, customer := js ''Somchai'',
     date_type := js ''range'', start_date := js ''2025-08-01'', end_date := js ''2025-08-03'',
     start_time := js ''9:0'', end_time := js ''1700''\<rparr>"


definition stored_range_world :: world where
  "stored_range_world = fresh_world [blank_job\<lparr>job_id := js ''JOB-000006''\<rparr>,
                                     range_job, blank_job\<lparr>job_id := js ''/''\<rparr>]"

section \<open>Theorems\<close>

lemma trim_Nil: "trim [] = []"
  by (simp add: trim_def)

text \<open>
  Claim C4, as the specification states it, fails: \<open>12:5\<close> is none of the listed shapes
  (\<open>H:MM\<close>, \<open>HH:MM\<close>, \<open>H:M\<close>, one or two digits, three or four digits), yet the
  normaliser answers \<open>12:05\<close> rather than null.
\<close>

theorem normalizeTime_unlisted_shape_counterexample:
  "\<not> spec_shape (js ''12:5'') \<and> normalizeTime (js ''12:5'') = Some (js ''12:05'')"
proof -
  have "\<not> spec_shape (js ''12:5'')"
    by (simp add: spec_shape_def js_def is_digit_def)
  moreover have "normalizeTime (js ''12:5'') = Some (js ''12:05'')"
    by (simp add: normalizeTime_def js_def trim_def is_space_def re_hh_mm_def re_h_mm_def
        re_hh_def re_hh_m_def is_digit_def hours_of_def minutes_of_def padStart_def)
  ultimately show ?thesis by simp
qed

text \<open>
  Claim C4, amended: the normaliser maps \<open>9:0\<close> to \<open>09:00\<close>, \<open>900\<close> to \<open>09:00\<close>,
  \<open>1700\<close> to \<open>17:00\<close> and \<open>7\<close> to \<open>07:00\<close>; and it answers null exactly for the inputs
  that, once surrounding white space is trimmed, match none of \<open>H:MM\<close>, \<open>HH:MM\<close>,
  \<open>H:M\<close>, \<open>HH:M\<close>, one or two digits, three or four digits.
\<close>

theorem normalizeTime_shapes:
  "normalizeTime (js ''9:0'') = Some (js ''09:00'')
   \<and> normalizeTime (js ''900'') = Some (js ''09:00'')
   \<and> normalizeTime (js ''1700'') = Some (js ''17:00'')
   \<and> normalizeTime (js ''7'') = Some (js ''07:00'')
   \<and> (\<forall>t. \<not> accepted_shape t \<longrightarrow> normalizeTime t = None)
   \<and> (\<forall>t. accepted_shape t \<longrightarrow> normalizeTime t \<noteq> None)"
proof -
  note ev = normalizeTime_def js_def trim_def is_space_def re_hh_mm_def re_h_mm_def
    re_hh_def re_hh_m_def re_compact_def is_digit_def hours_of_def minutes_of_def padStart_def
  have e1: "normalizeTime (js ''9:0'') = Some (js ''09:00'')" by (simp add: ev)
  have e2: "normalizeTime (js ''900'') = Some (js ''09:00'')" by (simp add: ev)
  have e3: "normalizeTime (js ''1700'') = Some (js ''17:00'')" by (simp add: ev)
  have e4: "normalizeTime (js ''7'') = Some (js ''07:00'')" by (simp add: ev)
  have len3: "length s = 3" if "pat s ''ddd''" for s
    using that by (cases s; simp; cases "tl s"; simp; cases "tl (tl s)"; simp;
        cases "tl (tl (tl s))"; simp)
  have len4: "length s = 4" if "pat s ''dddd''" for s
    using that by (cases s; simp; cases "tl s"; simp; cases "tl (tl s)"; simp;
        cases "tl (tl (tl s))"; simp; cases "tl (tl (tl (tl s)))"; simp)
  have n: "normalizeTime t = None" if "\<not> accepted_shape t" for t
    using that
    by (auto simp: normalizeTime_def accepted_shape_def spec_shape_def re_hh_mm_def
        re_h_mm_def re_hh_def re_hh_m_def re_compact_def Let_def)
  have y: "normalizeTime t \<noteq> None" if "accepted_shape t" for t
  proof -
    have "t \<noteq> []" using that
      by (auto simp: accepted_shape_def spec_shape_def trim_Nil)
    then show ?thesis using that len3 [of "trim t"] len4 [of "trim t"]
      by (auto simp: normalizeTime_def accepted_shape_def spec_shape_def re_hh_mm_def
          re_h_mm_def re_hh_def re_hh_m_def re_compact_def Let_def)
  qed
  from e1 e2 e3 e4 n y show ?thesis by blast
qed

theorem normalizeTime_shapes_witness:
  "\<not> accepted_shape (js ''9am'') \<and> normalizeTime (js ''9am'') = None
   \<and> accepted_shape (js '' 12:5 '') \<and> normalizeTime (js '' 12:5 '') = Some (js ''12:05'')"
proof -
  have a: "\<not> accepted_shape (js ''9am'')"
    by (simp add: accepted_shape_def spec_shape_def js_def trim_def is_space_def is_digit_def)
  have b: "accepted_shape (js '' 12:5 '')"
    by (simp add: accepted_shape_def spec_shape_def js_def trim_def is_space_def is_digit_def)
  have c: "normalizeTime (js '' 12:5 '') = Some (js ''12:05'')"
    by (simp add: normalizeTime_def js_def trim_def is_space_def re_hh_mm_def re_h_mm_def
        re_hh_def re_hh_m_def is_digit_def hours_of_def minutes_of_def padStart_def)
  from a b c normalizeTime_shapes show ?thesis by blast
qed

text \<open>
  Claim C5, as stated, fails in its fallback: with no recognised time window, a start of
  \<open>10:00\<close> is before \<open>13:00\<close>, so the claim's heuristic gives the end \<open>12:00\<close>; the code
  gives \<open>17:00\<close>.
\<close>

theorem repairTimes_fallback_counterexample:
  "\<not> js_ge (js ''10:00'') (js ''13:00'')
   \<and> repairTimes (blank_job\<lparr>start_time := js ''10:00'', end_time := js ''0:00''\<rparr>)
       = (js ''10:00'', js ''17:00'')"
  by (simp add: repairTimes_def blank_job_def or_else_def js_ge_def js_def)

text \<open>
  Claim C5, amended: when the job's end time is the text \<open>0:00\<close> or \<open>00:00\<close>, the pair is
  replaced by the window of \<open>time_window\<close>: AM gives 09:00--12:00, PM gives 13:00--17:00,
  All Day gives 08:00--18:00; with any other \<open>time_window\<close> the start time is kept (09:00
  when the job has none) and the end is 12:00 when that start is \<open>09:00\<close> or \<open>9:00\<close> and
  17:00 otherwise. A job with no end time at all gets the default end 17:00, and one with
  no start time the default start 09:00.
\<close>

theorem repairTimes_policy:
  assumes "end_time j = js ''0:00'' \<or> end_time j = js ''00:00''"
  shows "(time_window j = js ''AM'' \<longrightarrow> repairTimes j = (js ''09:00'', js ''12:00''))
    \<and> (time_window j = js ''PM'' \<longrightarrow> repairTimes j = (js ''13:00'', js ''17:00''))
    \<and> (time_window j = js ''All Day'' \<longrightarrow> repairTimes j = (js ''08:00'', js ''18:00''))
    \<and> (time_window j \<notin> {js ''AM'', js ''PM'', js ''All Day''} \<longrightarrow>
          repairTimes j =
            (or_else (start_time j) (js ''09:00''),
             if or_else (start_time j) (js ''09:00'') \<in> {js ''09:00'', js ''9:00''}
             then js ''12:00'' else js ''17:00''))
    \<and> repairTimes (j\<lparr>end_time := []\<rparr>) = (or_else (start_time j) (js ''09:00''), js ''17:00'')"
proof -
  have ne: "js ''0:00'' \<noteq> []" "js ''00:00'' \<noteq> []" "js ''17:00'' \<noteq> js ''0:00''"
    "js ''17:00'' \<noteq> js ''00:00''" "js ''AM'' \<noteq> js ''PM''" "js ''AM'' \<noteq> js ''All Day''"
    "js ''PM'' \<noteq> js ''All Day''"
    by (simp_all add: js_def)
  show ?thesis using assms ne
    by (auto simp: repairTimes_def or_else_def Let_def)
qed

theorem repairTimes_policy_witness:
  "repairTimes (blank_job\<lparr>end_time := js ''0:00'', time_window := js ''AM''\<rparr>)
     = (js ''09:00'', js ''12:00'')
   \<and> repairTimes (blank_job\<lparr>end_time := js ''00:00'', start_time := js ''14:30''\<rparr>)
     = (js ''14:30'', js ''17:00'')
   \<and> repairTimes (blank_job\<lparr>end_time := js ''00:00''\<rparr>) = (js ''09:00'', js ''12:00'')"
proof -
  let ?a = "blank_job\<lparr>end_time := js ''0:00'', time_window := js ''AM''\<rparr>"
  let ?b = "blank_job\<lparr>end_time := js ''00:00'', start_time := js ''14:30''\<rparr>"
  let ?c = "blank_job\<lparr>end_time := js ''00:00''\<rparr>"
  have a: "end_time ?a = js ''0:00'' \<or> end_time ?a = js ''00:00''" by simp
  have b: "end_time ?b = js ''0:00'' \<or> end_time ?b = js ''00:00''" by simp
  have c: "end_time ?c = js ''0:00'' \<or> end_time ?c = js ''00:00''" by simp
  have wa: "time_window ?a = js ''AM''" by simp
  have wb: "time_window ?b \<notin> {js ''AM'', js ''PM'', js ''All Day''}"
    by (simp add: blank_job_def js_def)
  have wc: "time_window ?c \<notin> {js ''AM'', js ''PM'', js ''All Day''}"
    by (simp add: blank_job_def js_def)
  have sb: "or_else (start_time ?b) (js ''09:00'') = js ''14:30''"
    by (simp add: or_else_def js_def)
  have sc: "or_else (start_time ?c) (js ''09:00'') = js ''09:00''"
    by (simp add: or_else_def blank_job_def)
  have nb: "js ''14:30'' \<notin> {js ''09:00'', js ''9:00''}" by (simp add: js_def)
  from repairTimes_policy [OF a] wa have 1: "repairTimes ?a = (js ''09:00'', js ''12:00'')"
    by blast
  from repairTimes_policy [OF b] wb sb nb have 2: "repairTimes ?b = (js ''14:30'', js ''17:00'')"
    by simp
  from repairTimes_policy [OF c] wc sc have 3: "repairTimes ?c = (js ''09:00'', js ''12:00'')"
    by simp
  from 1 2 3 show ?thesis by blast
qed

subsection \<open>Evaluation and shape lemmas\<close>

lemma show_nat_small: "n < 10 \<Longrightarrow> show_nat n = [48 + n]"
  by (simp add: show_nat.simps)

lemma show_nat_big: "10 \<le> n \<Longrightarrow> show_nat n = show_nat (n div 10) @ [48 + n mod 10]"
  by (subst show_nat.simps) simp

lemma replicate_pos: "0 < n \<Longrightarrow> replicate n x = x # replicate (n - 1) x"
  by (cases n) simp_all

lemmas str_ev = js_def trim_def is_space_def is_digit_def startsWith_def padStart_def
  show_nat_small show_nat_big replicate_pos show_int_def

lemma pat_Nil: "pat s [] \<longleftrightarrow> s = []"
  by (cases s) auto

lemma pat_Cons: "pat s (p # ps) \<longleftrightarrow>
    (\<exists>c r. s = c # r \<and> (if p = CHR ''d'' then is_digit c else c = of_char p) \<and> pat r ps)"
  by (cases s) auto

lemma digit_not_space: "is_digit c \<Longrightarrow> \<not> is_space c"
  by (auto simp: is_digit_def is_space_def)

lemma takeWhile_all: "\<forall>x\<in>set xs. P x \<Longrightarrow> takeWhile P xs = xs"
  by (induction xs) auto

subsection \<open>Next job id\<close>

lemma well_formed_idD:
  "well_formed_id s \<Longrightarrow> \<exists>a b c d e f. s = [74, 79, 66, 45, a, b, c, d, e, f]
     \<and> is_digit a \<and> is_digit b \<and> is_digit c \<and> is_digit d \<and> is_digit e \<and> is_digit f"
  by (auto simp: well_formed_id_def pat_Cons pat_Nil)

lemma parseInt_digits:
  assumes "is_digit a" "list_all is_digit r"
  shows "parseInt (a # r) = Some (int (dec_val (a # r)))"
proof -
  have d: "dropWhile is_space (a # r) = a # r"
    using assms(1) digit_not_space by simp
  have s: "a \<noteq> 45" "a \<noteq> 43"
    using assms(1) by (auto simp: is_digit_def)
  have h: "\<not> startsWith (a # r) (js ''0x'')" "\<not> startsWith (a # r) (js ''0X'')"
    using assms by (cases r; auto simp: startsWith_def js_def is_digit_def)+
  have t: "takeWhile (\<lambda>c. digit_val c < 10) (a # r) = a # r"
    using assms by (intro takeWhile_all) (auto simp: digit_val_def is_digit_def list_all_iff)
  have f: "foldl (\<lambda>x c. 10 * x + digit_val c) k z = foldl (\<lambda>x c. 10 * x + (c - 48)) k z"
    if "list_all is_digit z" for z k
    using that by (induction z arbitrary: k) (auto simp: digit_val_def is_digit_def)
  show ?thesis using d s h t f [of "a # r" 0] assms
    by (simp add: parseInt_def Let_def dec_val_def)
qed

lemma id_step_well_formed:
  assumes "well_formed_id (job_id j)"
  shows "id_step j m = max m (int (dec_val (drop 4 (job_id j))))"
proof -
  from well_formed_idD [OF assms] obtain a b c d e f where
    s: "job_id j = [74, 79, 66, 45, a, b, c, d, e, f]" and
    dg: "is_digit a" "is_digit b" "is_digit c" "is_digit d" "is_digit e" "is_digit f"
    by blast
  have tr: "trim (job_id j) = job_id j"
    using dg digit_not_space [of f] by (simp add: s trim_def is_space_def)
  have p: "parseInt [a, b, c, d, e, f] = Some (int (dec_val [a, b, c, d, e, f]))"
    using dg by (intro parseInt_digits) auto
  show ?thesis using tr p
    by (auto simp: id_step_def s startsWith_def js_def)
qed

lemma id_step_other:
  assumes "\<not> startsWith (job_id j) (js ''JOB-'')"
  shows "id_step j m = m"
  using assms by (simp add: id_step_def)

lemma fold_id_step:
  assumes "\<forall>j\<in>set rows. startsWith (job_id j) (js ''JOB-'') \<longrightarrow> well_formed_id (job_id j)"
    and "0 \<le> m"
  shows "fold id_step rows m = max m (int (foldr max
        (map (\<lambda>s. dec_val (drop 4 s)) (filter well_formed_id (map job_id rows))) 0))"
  using assms
proof (induction rows arbitrary: m)
  case Nil
  then show ?case by simp
next
  case (Cons j rows)
  show ?case
  proof (cases "well_formed_id (job_id j)")
    case True
    then show ?thesis using Cons by (simp add: id_step_well_formed)
  next
    case False
    with Cons.prems have "\<not> startsWith (job_id j) (js ''JOB-'')" by auto
    then show ?thesis using Cons False by (simp add: id_step_other)
  qed
qed

text \<open>
  Claim C8, as stated, fails: a malformed id is not always ignored. \<open>JOB-12A\<close> is not
  \<open>JOB-\<close> and six digits, yet \<open>parseInt\<close> reads its leading 12, so with it in the store
  the next id is \<open>JOB-000013\<close>, and without it \<open>JOB-000002\<close>.
\<close>

theorem getNextJobId_malformed_counterexample:
  "\<not> well_formed_id (js ''JOB-12A'')
   \<and> getNextJobId [blank_job\<lparr>job_id := js ''JOB-000001''\<rparr>,
                    blank_job\<lparr>job_id := js ''JOB-12A''\<rparr>] = js ''JOB-000013''
   \<and> spec_next_id [blank_job\<lparr>job_id := js ''JOB-000001''\<rparr>,
                    blank_job\<lparr>job_id := js ''JOB-12A''\<rparr>] = js ''JOB-000002''"
proof -
  have 1: "\<not> well_formed_id (js ''JOB-12A'')"
    by (simp add: well_formed_id_def str_ev)
  have 2: "getNextJobId [blank_job\<lparr>job_id := js ''JOB-000001''\<rparr>,
      blank_job\<lparr>job_id := js ''JOB-12A''\<rparr>] = js ''JOB-000013''"
    by (simp add: getNextJobId_def id_step_def blank_job_def parseInt_def digit_val_def
        Let_def str_ev)
  have 3: "spec_next_id [blank_job\<lparr>job_id := js ''JOB-000001''\<rparr>,
      blank_job\<lparr>job_id := js ''JOB-12A''\<rparr>] = js ''JOB-000002''"
    by (simp add: spec_next_id_def well_formed_id_def dec_val_def blank_job_def str_ev)
  from 1 2 3 show ?thesis by blast
qed

text \<open>
  Claim C8, amended: \<open>getNextJobId\<close> ignores every id that does not start with \<open>JOB-\<close>
  (the empty id and \<open>/\<close> among them); when every id that does start with \<open>JOB-\<close> is
  well-formed (\<open>JOB-\<close> and six digits), it returns \<open>JOB-N\<close> zero-padded to six digits,
  \<open>N\<close> being one plus the largest number among the well-formed ids (one when there is
  none). Given the ids \<open>JOB-000001\<close>, \<open>JOB-000002\<close>, \<open>/\<close> and the empty id it returns
  \<open>JOB-000003\<close>.
\<close>

theorem getNextJobId_well_formed:
  assumes "\<forall>j\<in>set rows. startsWith (job_id j) (js ''JOB-'') \<longrightarrow> well_formed_id (job_id j)"
  shows "getNextJobId rows = spec_next_id rows"
proof -
  have "show_int (int n + 1) = show_nat (Suc n)" for n
    by (simp add: show_int_def nat_add_distrib)
  then show ?thesis using fold_id_step [OF assms, of 0]
    by (simp add: getNextJobId_def spec_next_id_def)
qed

theorem getNextJobId_well_formed_witness:
  "getNextJobId [blank_job\<lparr>job_id := js ''JOB-000001''\<rparr>, blank_job\<lparr>job_id := js ''JOB-000002''\<rparr>,
      blank_job\<lparr>job_id := js ''/''\<rparr>, blank_job] = js ''JOB-000003''
   \<and> spec_next_id [blank_job\<lparr>job_id := js ''JOB-000001''\<rparr>, blank_job\<lparr>job_id := js ''JOB-000002''\<rparr>,
      blank_job\<lparr>job_id := js ''/''\<rparr>, blank_job] = js ''JOB-000003''"
proof -
  let ?rows = "[blank_job\<lparr>job_id := js ''JOB-000001''\<rparr>, blank_job\<lparr>job_id := js ''JOB-000002''\<rparr>,
      blank_job\<lparr>job_id := js ''/''\<rparr>, blank_job]"
  have h: "\<forall>j\<in>set ?rows. startsWith (job_id j) (js ''JOB-'') \<longrightarrow> well_formed_id (job_id j)"
    by (simp add: well_formed_id_def blank_job_def str_ev)
  have s: "spec_next_id ?rows = js ''JOB-000003''"
    by (simp add: spec_next_id_def well_formed_id_def dec_val_def blank_job_def str_ev)
  from getNextJobId_well_formed [OF h] s show ?thesis by simp
qed

text \<open>
  Claim C9 against the code: \<open>startDailyAutoDetection\<close> has no test for an existing
  registration. Started twice, two tasks run; the map only knows the second, so a stop
  afterwards leaves the first one running while the status reports that nothing is
  scheduled.
\<close>

theorem scheduler_double_start:
  "running_tasks (run_calls [Start] new_scheduler) = 1
   \<and> running_tasks (run_calls [Start, Start] new_scheduler) = 2
   \<and> running_tasks (run_calls [Start, Start, Stop] new_scheduler) = 1
   \<and> \<not> dailyAutoDetectionActive (run_calls [Start, Start, Stop] new_scheduler)
   \<and> running_tasks (run_calls [Start, Start, Stop, Stop] new_scheduler) = 1"
  by (simp add: running_tasks_def new_scheduler_def startDailyAutoDetection_def
      stopDailyAutoDetection_def dailyAutoDetectionActive_def Let_def)

subsection \<open>Drift detection\<close>

lemma find_index_Some:
  "find_index P xs = Some i \<Longrightarrow> i < length xs \<and> P (xs ! i) \<and> (\<forall>k<i. \<not> P (xs ! k))"
proof (induction xs arbitrary: i)
  case Nil
  then show ?case by simp
next
  case (Cons x xs)
  show ?case
  proof (cases "P x")
    case True
    with Cons.prems show ?thesis by simp
  next
    case False
    with Cons.prems obtain k where k: "find_index P xs = Some k" "i = Suc k"
      by (auto split: option.splits)
    from Cons.IH [OF k(1)] False k(2) show ?thesis
      by (auto simp: less_Suc_eq_0_disj)
  qed
qed

lemma find_index_None: "find_index P xs = None \<longleftrightarrow> (\<forall>x\<in>set xs. \<not> P x)"
  by (induction xs) (auto split: option.splits)

lemma search_loop_filter:
  "search_loop sv e cs =
     (case filter (\<lambda>c. Str (cal_id c) \<notin> set (queueCalendarValues (cfg sv))
                 \<and> events_get sv (Str (cal_id c)) e = Found) cs of
        [] \<Rightarrow> \<lparr> found = False, calendarId = None, calendarName = None \<rparr>
      | c # _ \<Rightarrow> \<lparr> found = True, calendarId = Some (cal_id c),
                   calendarName = Some (cal_summary c) \<rparr>)"
  by (induction cs) (auto split: get_outcome.splits)

lemma search_holding:
  "searchEventInPersonalCalendars sv e =
     (case holding_calendars sv e of
        [] \<Rightarrow> \<lparr> found = False, calendarId = None, calendarName = None \<rparr>
      | c # _ \<Rightarrow> \<lparr> found = True, calendarId = Some (cal_id c),
                   calendarName = Some (cal_summary c) \<rparr>)"
  by (simp add: searchEventInPersonalCalendars_def holding_calendars_def search_loop_filter)

lemma updateJobStatus_ok:
  assumes "store_error sv i = None" "find_index (\<lambda>r. job_id r = i) (sheet st) = Some k"
  shows "updateJobStatus sv i s md st =
     Inr (st\<lparr>sheet := (sheet st)[k := (sheet st ! k)\<lparr>status := s, updated_at := bangkokTime sv\<rparr>],
             status_log := status_log st @
               [\<lparr> sc_jobId = i, sc_newStatus = s, sc_metadata = md \<rparr>]\<rparr>)"
  using assms by (simp add: updateJobStatus_def sheets_updateJobStatus_def Let_def)

lemmas drift_ev = scenario_services_def scenario_state_def scheduled_job_def blank_job_def
  team_A_def team_B_def team_new_queue_def team_quotation_def completion_sentinel_def js_def
  runDailyAutoDetection_def scan_step_def processJobAutoDetection_def processJob_try_def
  checkEventMoved_def searchEventInPersonalCalendars_def getUserCalendars_def
  queueCalendars_def queueCalendarValues_def env_val_def truthy_def truthy_opt_def
  updateJobStatus_def sheets_updateJobStatus_def eligible_def or_else_def Let_def
  status_updated_def not_processed_def message_of_def or_none_def

text \<open>
  Claim C2. Let a job have a linked event id (\<open>eventId\<close>, or the legacy
  \<open>calendar_event_id\<close>), a team, and a queue calendar configured for that team. If the
  direct lookup of the event in the queue calendar succeeds, processing the job changes
  nothing: no store write, no status-update call, the result says no changes were
  detected. If that lookup answers not-found, then, the job being in the store and the
  store accepting the write, the status of the job's row is rewritten to the completion
  sentinel and the status-update call is logged with its metadata: the name of the first
  other reachable calendar holding the event and the detection time when there is such a
  calendar, the disappeared flag and the detection time when there is none.
\<close>

theorem drift_transition:
  assumes "or_else (eventId j) (calendar_event_id j) = e" "e \<noteq> []" "team j \<noteq> []"
    and "queueCalendars (cfg sv) (team j) = Str q" "q \<noteq> []"
  shows "(events_get sv (Str q) e = Found \<longrightarrow>
            processJobAutoDetection sv j st =
              (Inr (not_processed (js ''No changes detected'')), st))
    \<and> (events_get sv (Str q) e = NotFound \<and> store_error sv (job_id j) = None
        \<and> find_index (\<lambda>r. job_id r = job_id j) (sheet st) = Some k
        \<and> (\<forall>c\<in>set (getUserCalendars sv). cal_id c \<noteq> []) \<longrightarrow>
          k < length (sheet st) \<and> job_id (sheet st ! k) = job_id j \<and>
          processJobAutoDetection sv j st =
            (Inr (status_updated
                   (case holding_calendars sv e of
                      [] \<Rightarrow> js ''Event disappeared from queue calendar - assumed completed by technician''
                    | c # _ \<Rightarrow> js ''Event moved to calendar: '' @ cal_summary c)),
             st\<lparr>sheet := (sheet st)[k := (sheet st ! k)\<lparr>status := completion_sentinel,
                                                         updated_at := bangkokTime sv\<rparr>],
                status_log := status_log st @
                  [\<lparr> sc_jobId = job_id j, sc_newStatus = completion_sentinel,
                     sc_metadata =
                       (case holding_calendars sv e of
                          [] \<Rightarrow> DisappearedFromQueue (now_iso sv)
                        | c # _ \<Rightarrow> MovedFromQueue (Some (cal_summary c)) (now_iso sv)) \<rparr>]\<rparr>))"
proof (intro conjI impI)
  assume "events_get sv (Str q) e = Found"
  then show "processJobAutoDetection sv j st =
      (Inr (not_processed (js ''No changes detected'')), st)"
    using assms
    by (simp add: processJobAutoDetection_def processJob_try_def checkEventMoved_def
        truthy_def Let_def)
next
  assume h: "events_get sv (Str q) e = NotFound \<and> store_error sv (job_id j) = None
        \<and> find_index (\<lambda>r. job_id r = job_id j) (sheet st) = Some k
        \<and> (\<forall>c\<in>set (getUserCalendars sv). cal_id c \<noteq> [])"
  then show "k < length (sheet st)" "job_id (sheet st ! k) = job_id j"
    using find_index_Some [of "\<lambda>r. job_id r = job_id j" "sheet st" k] by simp_all
  note u = updateJobStatus_ok [of sv "job_id j" st k completion_sentinel]
  show "processJobAutoDetection sv j st = (Inr (status_updated
                   (case holding_calendars sv e of
                      [] \<Rightarrow> js ''Event disappeared from queue calendar - assumed completed by technician''
                    | c # _ \<Rightarrow> js ''Event moved to calendar: '' @ cal_summary c)),
             st\<lparr>sheet := (sheet st)[k := (sheet st ! k)\<lparr>status := completion_sentinel,
                                                         updated_at := bangkokTime sv\<rparr>],
                status_log := status_log st @
                  [\<lparr> sc_jobId = job_id j, sc_newStatus = completion_sentinel,
                     sc_metadata =
                       (case holding_calendars sv e of
                          [] \<Rightarrow> DisappearedFromQueue (now_iso sv)
                        | c # _ \<Rightarrow> MovedFromQueue (Some (cal_summary c)) (now_iso sv)) \<rparr>]\<rparr>)"
  proof (cases "holding_calendars sv e")
    case Nil
    then show ?thesis using assms h u
      by (simp add: processJobAutoDetection_def processJob_try_def checkEventMoved_def
          truthy_def Let_def search_holding truthy_opt_def)
  next
    case (Cons c cs)
    then have "c \<in> set (holding_calendars sv e)" by simp
    then have "c \<in> set (getUserCalendars sv)" by (simp add: holding_calendars_def)
    with h have "cal_id c \<noteq> []" by blast
    then show ?thesis using assms h u Cons
      by (simp add: processJobAutoDetection_def processJob_try_def checkEventMoved_def
          truthy_def Let_def search_holding truthy_opt_def or_none_def)
  qed
qed

theorem drift_transition_witness:
  "processJobAutoDetection scenario_services (scheduled_job ''JOB-000001'' ''ev1'') scenario_state
     = (Inr (not_processed (js ''No changes detected'')), scenario_state)
   \<and> (case processJobAutoDetection scenario_services (scheduled_job ''JOB-000002'' ''ev2'')
             scenario_state of
        (r, st') \<Rightarrow>
          map status (sheet st') =
            [js ''Scheduled'', completion_sentinel, js ''Scheduled'', js ''Scheduled'', []]
          \<and> map sc_metadata (status_log st') =
            [MovedFromQueue (Some (js ''Somchai'')) (js ''2025-08-01T03:00:00.000Z'')])
   \<and> (case processJobAutoDetection scenario_services (scheduled_job ''JOB-000003'' ''ev3'')
             scenario_state of
        (r, st') \<Rightarrow>
          map status (sheet st') =
            [js ''Scheduled'', js ''Scheduled'', completion_sentinel, js ''Scheduled'', []]
          \<and> map sc_metadata (status_log st') =
            [DisappearedFromQueue (js ''2025-08-01T03:00:00.000Z'')])"
proof -
  let ?sv = scenario_services and ?st = scenario_state
  let ?j1 = "scheduled_job ''JOB-000001'' ''ev1''"
  let ?j2 = "scheduled_job ''JOB-000002'' ''ev2''"
  let ?j3 = "scheduled_job ''JOB-000003'' ''ev3''"
  have q: "queueCalendars (cfg ?sv) (team ?j1) = Str (js ''queue-a'')"
      "queueCalendars (cfg ?sv) (team ?j2) = Str (js ''queue-a'')"
      "queueCalendars (cfg ?sv) (team ?j3) = Str (js ''queue-a'')"
    by (simp_all add: drift_ev)
  have ne: "js ''queue-a'' \<noteq> []" "js ''ev1'' \<noteq> []" "js ''ev2'' \<noteq> []" "js ''ev3'' \<noteq> []"
      "team ?j1 \<noteq> []" "team ?j2 \<noteq> []" "team ?j3 \<noteq> []"
    by (simp_all add: drift_ev)
  have e: "or_else (eventId ?j1) (calendar_event_id ?j1) = js ''ev1''"
      "or_else (eventId ?j2) (calendar_event_id ?j2) = js ''ev2''"
      "or_else (eventId ?j3) (calendar_event_id ?j3) = js ''ev3''"
    by (simp_all add: drift_ev)
  have g1: "events_get ?sv (Str (js ''queue-a'')) (js ''ev1'') = Found"
    by (simp add: drift_ev)
  have g2: "events_get ?sv (Str (js ''queue-a'')) (js ''ev2'') = NotFound
      \<and> store_error ?sv (job_id ?j2) = None
      \<and> find_index (\<lambda>r. job_id r = job_id ?j2) (sheet ?st) = Some 1
      \<and> (\<forall>c\<in>set (getUserCalendars ?sv). cal_id c \<noteq> [])"
    by (simp add: drift_ev)
  have g3: "events_get ?sv (Str (js ''queue-a'')) (js ''ev3'') = NotFound
      \<and> store_error ?sv (job_id ?j3) = None
      \<and> find_index (\<lambda>r. job_id r = job_id ?j3) (sheet ?st) = Some 2
      \<and> (\<forall>c\<in>set (getUserCalendars ?sv). cal_id c \<noteq> [])"
    by (simp add: drift_ev)
  have h2: "holding_calendars ?sv (js ''ev2'')
      = [\<lparr> cal_id = js ''tech-1'', cal_summary = js ''Somchai'' \<rparr>]"
    by (simp add: holding_calendars_def drift_ev)
  have h3: "holding_calendars ?sv (js ''ev3'') = []"
    by (simp add: holding_calendars_def drift_ev)
  from drift_transition [OF e(1) ne(2) ne(5) q(1) ne(1), of ?st] g1
  have 1: "processJobAutoDetection ?sv ?j1 ?st
      = (Inr (not_processed (js ''No changes detected'')), ?st)"
    by blast
  from drift_transition [OF e(2) ne(3) ne(6) q(2) ne(1), of ?st 1] g2
  have 2: "case processJobAutoDetection ?sv ?j2 ?st of
        (r, st') \<Rightarrow>
          map status (sheet st') =
            [js ''Scheduled'', completion_sentinel, js ''Scheduled'', js ''Scheduled'', []]
          \<and> map sc_metadata (status_log st') =
            [MovedFromQueue (Some (js ''Somchai'')) (js ''2025-08-01T03:00:00.000Z'')]"
    by (simp add: h2) (simp add: scenario_services_def scenario_state_def scheduled_job_def
        blank_job_def)
  from drift_transition [OF e(3) ne(4) ne(7) q(3) ne(1), of ?st 2] g3
  have 3: "case processJobAutoDetection ?sv ?j3 ?st of
        (r, st') \<Rightarrow>
          map status (sheet st') =
            [js ''Scheduled'', js ''Scheduled'', completion_sentinel, js ''Scheduled'', []]
          \<and> map sc_metadata (status_log st') =
            [DisappearedFromQueue (js ''2025-08-01T03:00:00.000Z'')]"
    by (simp add: h3) (simp add: scenario_services_def scenario_state_def scheduled_job_def
        blank_job_def)
  from 1 2 3 show ?thesis by blast
qed











subsection \<open>Decimal text and calendar dates\<close>

lemma show_nat_digits: "list_all is_digit (show_nat n)"
proof (induction n rule: show_nat.induct)
  case (1 n)
  show ?case
  proof (cases "n < 10")
    case True
    then show ?thesis by (simp add: show_nat_small is_digit_def)
  next
    case False
    then have "n mod 10 < 10" by simp
    with False 1 show ?thesis by (simp add: show_nat_big is_digit_def)
  qed
qed

lemma dec_val_snoc: "dec_val (s @ [c]) = 10 * dec_val s + (c - 48)"
  by (simp add: dec_val_def)

lemma dec_val_show_nat: "dec_val (show_nat n) = n"
proof (induction n rule: show_nat.induct)
  case (1 n)
  show ?case
  proof (cases "n < 10")
    case True
    then show ?thesis by (simp add: show_nat_small dec_val_def)
  next
    case False
    with 1 show ?thesis by (simp add: show_nat_big dec_val_snoc)
  qed
qed

lemma length_show_nat: "n < 10 ^ k \<Longrightarrow> 0 < k \<Longrightarrow> length (show_nat n) \<le> k"
proof (induction n arbitrary: k rule: show_nat.induct)
  case (1 n)
  show ?case
  proof (cases "n < 10")
    case True
    with 1(3) show ?thesis by (simp add: show_nat_small)
  next
    case False
    from 1(2,3) False obtain k' where k: "k = Suc k'" "0 < k'"
      by (cases k; cases "k - 1"; auto)
    with 1(2) have "n div 10 < 10 ^ k'"
      by (simp add: less_mult_imp_div_less mult.commute)
    from 1(1) [OF False this k(2)] False k show ?thesis by (simp add: show_nat_big)
  qed
qed

lemma dec_val_zeros: "dec_val (replicate z 48 @ s) = dec_val s"
proof -
  have "foldl (\<lambda>a c. 10 * a + (c - 48)) 0 (replicate z 48) = (0::nat)"
    by (induction z) auto
  then show ?thesis by (simp add: dec_val_def)
qed

lemma pad_show_nat:
  assumes "n < 10 ^ k" "0 < k"
  shows "length (padStart k 48 (show_nat n)) = k
    \<and> list_all is_digit (padStart k 48 (show_nat n))
    \<and> dec_val (padStart k 48 (show_nat n)) = n"
  using length_show_nat [OF assms] show_nat_digits [of n]
  by (auto simp: padStart_def dec_val_zeros dec_val_show_nat list_all_iff is_digit_def)

lemma len2D: "length s = 2 \<Longrightarrow> \<exists>a b. s = [a, b]"
  by (cases s; simp; cases "tl s"; simp)

lemma len4D: "length s = 4 \<Longrightarrow> \<exists>a b c d. s = [a, b, c, d]"
  by (auto simp: numeral_eq_Suc length_Suc_conv)

lemma days_in_month_le: "days_in_month y m \<le> 31" "1 \<le> days_in_month y m"
  by (simp_all add: days_in_month_def)

lemma parse_iso:
  assumes "valid_date c" "year c \<le> 9999"
  shows "date_only (isoDate c) = Some c \<and> pat (isoDate c) ''dddd-dd-dd'' \<and> length (isoDate c) = 10"
proof -
  from assms(1) have m: "1 \<le> month c" "month c \<le> 12" and d: "1 \<le> day c" "day c \<le> days_in_month (year c) (month c)"
    by (simp_all add: valid_date_def)
  from d days_in_month_le [of "year c" "month c"] have d31: "day c \<le> 31" by simp
  have y: "year c < 10 ^ 4" using assms(2) by simp
  have m2: "month c < 10 ^ 2" using m by simp
  have d2: "day c < 10 ^ 2" using d31 by simp
  from pad_show_nat [OF y] obtain y1 y2 y3 y4 where
    ys: "padStart 4 48 (show_nat (year c)) = [y1, y2, y3, y4]"
    and yd: "is_digit y1" "is_digit y2" "is_digit y3" "is_digit y4"
    and yv: "dec_val [y1, y2, y3, y4] = year c"
    using len4D [of "padStart 4 48 (show_nat (year c))"] by auto
  from pad_show_nat [OF m2] obtain m1 m2 where
    ms: "padStart 2 48 (show_nat (month c)) = [m1, m2]"
    and md: "is_digit m1" "is_digit m2"
    and mv: "dec_val [m1, m2] = month c"
    using len2D [of "padStart 2 48 (show_nat (month c))"] by auto
  from pad_show_nat [OF d2] obtain d1 d2 where
    ds: "padStart 2 48 (show_nat (day c)) = [d1, d2]"
    and dd: "is_digit d1" "is_digit d2"
    and dv: "dec_val [d1, d2] = day c"
    using len2D [of "padStart 2 48 (show_nat (day c))"] by auto
  have iso: "isoDate c = [y1, y2, y3, y4, 45, m1, m2, 45, d1, d2]"
    using assms(2) ys ms ds by (simp add: isoDate_def)
  have p: "pat (isoDate c) ''dddd-dd-dd''"
    using yd md dd by (simp add: iso)
  show ?thesis using p m d d31 yv mv dv
    by (simp add: date_only_def iso Let_def)
qed

lemma days_loop_step: "date_le a b \<Longrightarrow> days_loop a b = a # days_loop (next_day a) b"
  by (subst days_loop.simps) simp

lemma days_loop_stop: "\<not> date_le a b \<Longrightarrow> days_loop a b = []"
  by (subst days_loop.simps) simp

lemma cdate_eqI: "year a = year b \<Longrightarrow> month a = month b \<Longrightarrow> day a = day b \<Longrightarrow> a = (b::cdate)"
  by simp

lemma date_le_refl: "date_le a a"
  by (simp add: date_le_def)

lemma date_le_trans: "date_le a b \<Longrightarrow> date_le b c \<Longrightarrow> date_le a c"
  by (auto simp: date_le_def)

lemma date_le_antisym: "date_le a b \<Longrightarrow> date_le b a \<Longrightarrow> a = (b::cdate)"
  by (auto simp: date_le_def)

lemma date_le_total: "date_le a b \<or> date_le b a"
  by (auto simp: date_le_def)

lemma valid_next_day: "valid_date c \<Longrightarrow> valid_date (next_day c)"
  by (auto simp: valid_date_def next_day_def days_in_month_def)

lemma next_day_greater: "valid_date c \<Longrightarrow> date_le c (next_day c) \<and> \<not> date_le (next_day c) c"
  by (auto simp: valid_date_def next_day_def date_le_def)

lemma next_day_no_gap:
  assumes "valid_date c" "valid_date x" "date_le c x" "x \<noteq> c"
  shows "date_le (next_day c) x"
proof -
  from assms(4) have "year x \<noteq> year c \<or> month x \<noteq> month c \<or> day x \<noteq> day c"
    by (auto intro: cdate_eqI)
  with assms(1,2,3) show ?thesis
    by (auto simp: valid_date_def next_day_def date_le_def split: if_splits)
qed

lemma days_loop_mem:
  "valid_date a \<Longrightarrow> x \<in> set (days_loop a b) \<longleftrightarrow> valid_date x \<and> date_le a x \<and> date_le x b"
proof (induction a b rule: days_loop.induct)
  case (1 a b)
  show ?case
  proof (cases "date_le a b")
    case False
    then have "\<not> (date_le a x \<and> date_le x b)" using date_le_trans by blast
    with False show ?thesis by (simp add: days_loop_stop)
  next
    case True
    note ih = 1(1) [OF True valid_next_day [OF 1(2)]]
    show ?thesis
    proof (cases "x = a")
      case True
      with \<open>date_le a b\<close> 1(2) show ?thesis by (simp add: days_loop_step date_le_refl)
    next
      case False
      have "date_le (next_day a) x \<longleftrightarrow> date_le a x" if "valid_date x"
        using next_day_no_gap [OF 1(2) that _ False] next_day_greater [OF 1(2)] date_le_trans
        by blast
      with True False ih show ?thesis by (auto simp: days_loop_step)
    qed
  qed
qed

lemma days_loop_distinct: "valid_date a \<Longrightarrow> distinct (days_loop a b)"
proof (induction a b rule: days_loop.induct)
  case (1 a b)
  show ?case
  proof (cases "date_le a b")
    case False
    then show ?thesis by (simp add: days_loop_stop)
  next
    case True
    have "a \<notin> set (days_loop (next_day a) b)"
      using days_loop_mem [OF valid_next_day [OF 1(2)], of a b] next_day_greater [OF 1(2)]
      by simp
    with True 1(1) [OF True valid_next_day [OF 1(2)]] show ?thesis
      by (simp add: days_loop_step)
  qed
qed

lemma date_le_year: "date_le a b \<Longrightarrow> year a \<le> year b"
  by (auto simp: date_le_def)

lemma dec4_le: "is_digit y1 \<Longrightarrow> is_digit y2 \<Longrightarrow> is_digit y3 \<Longrightarrow> is_digit y4 \<Longrightarrow>
    dec_val [y1, y2, y3, y4] \<le> 9999"
  unfolding dec_val_def is_digit_def by simp arith

lemma date_only_valid:
  assumes "date_only s = Some c"
  shows "valid_date c \<and> year c \<le> 9999"
proof -
  define y where "y = dec_val (take 4 s)"
  define m where "m = dec_val (take 2 (drop 5 s))"
  define d where "d = dec_val (drop 8 s)"
  from assms have p: "pat s ''dddd-dd-dd''"
    by (simp add: date_only_def split: if_splits)
  then obtain y1 y2 y3 y4 r where s: "s = y1 # y2 # y3 # y4 # r"
    and dg: "is_digit y1" "is_digit y2" "is_digit y3" "is_digit y4"
    by (auto simp: pat_Cons)
  have "take 4 s = [y1, y2, y3, y4]" by (simp add: s)
  with dec4_le [OF dg] have y: "y \<le> 9999" by (simp add: y_def)
  from assms p have r: "1 \<le> m \<and> m \<le> 12 \<and> 1 \<le> d \<and> d \<le> 31"
    and c: "c = (if d \<le> days_in_month y m then \<lparr> year = y, month = m, day = d \<rparr>
                 else \<lparr> year = y, month = m + 1, day = d - days_in_month y m \<rparr>)"
    unfolding date_only_def Let_def y_def [symmetric] m_def [symmetric] d_def [symmetric]
    by (simp_all split: if_splits)
  show ?thesis
  proof (cases "d \<le> days_in_month y m")
    case True
    with r c y show ?thesis by (simp add: valid_date_def)
  next
    case False
    with r c y show ?thesis
      by (auto simp: valid_date_def days_in_month_def split: if_splits)
  qed
qed

subsection \<open>Creating events\<close>

lemma pat_length: "pat a p \<Longrightarrow> length a = length p"
  by (induction a p rule: pat.induct) auto

lemma pat_append: "pat a p \<Longrightarrow> pat b q \<Longrightarrow> pat (a @ b) (p @ q)"
  by (induction a p rule: pat.induct) auto

lemma digit_not_colon: "is_digit c \<Longrightarrow> c \<noteq> 58"
  by (simp add: is_digit_def)

lemma normalizeTime_shape:
  assumes "normalizeTime x = Some t"
  shows "pat t ''dd:dd''"
proof -
  define s where "s = trim x"
  have z: "is_digit 48" by (simp add: is_digit_def)
  note nc = digit_not_colon
  from assms have n: "x \<noteq> []" by (auto simp: normalizeTime_def)
  consider (a) "pat s ''d:dd''" | (b) "pat s ''dd:dd''" | (c) "pat s ''d''" | (d) "pat s ''dd''"
    | (e) "pat s ''d:d''" | (f) "pat s ''dd:d''" | (g) "pat s ''ddd''" | (h) "pat s ''dddd''"
    using assms n unfolding normalizeTime_def Let_def s_def [symmetric] re_hh_mm_def
      re_h_mm_def re_hh_def re_hh_m_def re_compact_def
    by (auto split: if_splits)
  then show ?thesis
  proof cases
    case a
    then obtain h m1 m2 where e: "s = [h, 58, m1, m2]" "is_digit h" "is_digit m1" "is_digit m2"
      by (auto simp: pat_Cons pat_Nil)
    then have "normalizeTime x = Some [48, h, 58, m1, m2]"
      using n nc [of h] nc [of m1] nc [of m2] unfolding normalizeTime_def Let_def s_def [symmetric]
      by (simp add: re_hh_mm_def hours_of_def minutes_of_def padStart_def)
    with assms e z show ?thesis by auto
  next
    case b
    then obtain h1 h2 m1 m2 where e: "s = [h1, h2, 58, m1, m2]" "is_digit h1" "is_digit h2"
      "is_digit m1" "is_digit m2"
      by (auto simp: pat_Cons pat_Nil)
    then have "normalizeTime x = Some [h1, h2, 58, m1, m2]"
      using n nc [of h1] nc [of h2] nc [of m1] nc [of m2]
      unfolding normalizeTime_def Let_def s_def [symmetric]
      by (simp add: re_hh_mm_def hours_of_def minutes_of_def padStart_def)
    with assms e show ?thesis by auto
  next
    case c
    then obtain h where e: "s = [h]" "is_digit h"
      by (auto simp: pat_Cons pat_Nil)
    then have "normalizeTime x = Some [48, h, 58, 48, 48]"
      using n unfolding normalizeTime_def Let_def s_def [symmetric]
      by (simp add: re_hh_mm_def re_h_mm_def re_hh_def padStart_def js_def)
    with assms e z show ?thesis by auto
  next
    case d
    then obtain h1 h2 where e: "s = [h1, h2]" "is_digit h1" "is_digit h2"
      by (auto simp: pat_Cons pat_Nil)
    then have "normalizeTime x = Some [h1, h2, 58, 48, 48]"
      using n unfolding normalizeTime_def Let_def s_def [symmetric]
      by (simp add: re_hh_mm_def re_h_mm_def re_hh_def padStart_def js_def)
    with assms e z show ?thesis by auto
  next
    case e
    then obtain h m where e: "s = [h, 58, m]" "is_digit h" "is_digit m"
      by (auto simp: pat_Cons pat_Nil)
    then have "normalizeTime x = Some [48, h, 58, 48, m]"
      using n nc [of h] nc [of m] unfolding normalizeTime_def Let_def s_def [symmetric]
      by (simp add: re_hh_mm_def re_h_mm_def re_hh_def re_hh_m_def hours_of_def minutes_of_def
          padStart_def)
    with assms e z show ?thesis by auto
  next
    case f
    then obtain h1 h2 m where e: "s = [h1, h2, 58, m]" "is_digit h1" "is_digit h2" "is_digit m"
      by (auto simp: pat_Cons pat_Nil)
    then have "normalizeTime x = Some [h1, h2, 58, 48, m]"
      using n nc [of h1] nc [of h2] nc [of m] unfolding normalizeTime_def Let_def s_def [symmetric]
      by (simp add: re_hh_mm_def re_h_mm_def re_hh_def re_hh_m_def hours_of_def minutes_of_def
          padStart_def)
    with assms e z show ?thesis by auto
  next
    case g
    then obtain a b c where e: "s = [a, b, c]" "is_digit a" "is_digit b" "is_digit c"
      by (auto simp: pat_Cons pat_Nil)
    then have "normalizeTime x = Some [48, a, 58, b, c]"
      using n nc [of b] unfolding normalizeTime_def Let_def s_def [symmetric]
      by (simp add: re_hh_mm_def re_h_mm_def re_hh_def re_hh_m_def re_compact_def)
    with assms e z show ?thesis by auto
  next
    case h
    then obtain a b c d where e: "s = [a, b, c, d]" "is_digit a" "is_digit b" "is_digit c"
      "is_digit d"
      by (auto simp: pat_Cons pat_Nil)
    then have "normalizeTime x = Some [a, b, 58, c, d]"
      using n nc [of b] nc [of c] unfolding normalizeTime_def Let_def s_def [symmetric]
      by (simp add: re_hh_mm_def re_h_mm_def re_hh_def re_hh_m_def re_compact_def)
    with assms e show ?thesis by auto
  qed
qed

lemma start_clock_shape: "pat (start_clock j) ''dd:dd''"
  by (auto simp: start_clock_def js_def is_digit_def dest: normalizeTime_shape split: option.splits)

lemma end_clock_shape: "pat (end_clock j) ''dd:dd''"
  by (auto simp: end_clock_def js_def is_digit_def dest: normalizeTime_shape split: option.splits)


lemma pat_appendD: "length a = length p \<Longrightarrow> pat (a @ b) (p @ q) \<Longrightarrow> pat a p"
  by (induction a p rule: pat.induct) auto


lemma date_time_text_start:
  "date_time_text (date j) (normalizeTime (fst (repairTimes j))) ''09:00'' = start_text j"
  by (simp add: date_time_text_def start_text_def start_clock_def split: option.splits)

lemma date_time_text_end:
  "date_time_text (date j) (normalizeTime (snd (repairTimes j))) ''17:00'' = end_text j"
  by (simp add: date_time_text_def end_text_def end_clock_def split: option.splits)

lemma date_time_valid_iff:
  assumes "pat t ''dd:dd''"
  shows "date_time_valid hst (d @ js ''T'' @ t @ js '':00+07:00'')
     \<longleftrightarrow> (if pat d ''dddd-dd-dd'' then date_only d \<noteq> None \<and> valid_clock t
          else other_date hst (d @ js ''T'' @ t @ js '':00+07:00'') \<noteq> None)"
proof -
  let ?s = "d @ js ''T'' @ t @ js '':00+07:00''"
  have lt: "length t = 5" using pat_length [OF assms] by simp
  have t1: "pat (js ''T'') ''T''" by (simp add: js_def)
  have t2: "pat (js '':00+07:00'') '':00+07:00''" by (simp add: js_def)
  from pat_append [OF t1 pat_append [OF assms t2]]
  have tail: "pat (js ''T'' @ t @ js '':00+07:00'') ''Tdd:dd:00+07:00''" by simp
  show ?thesis
  proof (cases "pat d ''dddd-dd-dd''")
    case True
    then have ld: "length d = 10" using pat_length by fastforce
    have "pat ?s ''dddd-dd-ddTdd:dd:00+07:00''"
      using pat_append [OF True tail] by simp
    moreover have "take 10 ?s = d" using ld by simp
    moreover have "take 5 (drop 11 ?s) = t" using ld lt by (simp add: js_def)
    ultimately show ?thesis using True by (simp add: date_time_valid_def)
  next
    case False
    have "\<not> pat ?s ''dddd-dd-ddTdd:dd:00+07:00''"
    proof
      assume p: "pat ?s ''dddd-dd-ddTdd:dd:00+07:00''"
      from pat_length [OF p] lt have ld: "length d = length ''dddd-dd-dd''" by (simp add: js_def)
      have "pat (d @ (js ''T'' @ t @ js '':00+07:00'')) (''dddd-dd-dd'' @ ''Tdd:dd:00+07:00'')"
        using p by simp
      from pat_appendD [OF ld this] False show False by simp
    qed
    with False show ?thesis by (simp add: date_time_valid_def)
  qed
qed


lemma texts_valid_iso:
  assumes "pat (date j) ''dddd-dd-dd''"
  shows "date_time_valid hst (start_text j) \<longleftrightarrow> date_only (date j) \<noteq> None \<and> valid_clock (start_clock j)"
    and "date_time_valid hst (end_text j) \<longleftrightarrow> date_only (date j) \<noteq> None \<and> valid_clock (end_clock j)"
  using assms date_time_valid_iff [OF start_clock_shape, of hst "date j" j]
    date_time_valid_iff [OF end_clock_shape, of hst "date j" j]
  by (simp_all add: start_text_def end_text_def)

lemma repairTimes_daily: "repairTimes (daily_job j d) = repairTimes j"
  by (simp add: repairTimes_def daily_job_def Let_def)

lemma clock_daily: "start_clock (daily_job j d) = start_clock j" "end_clock (daily_job j d) = end_clock j"
  by (simp_all add: start_clock_def end_clock_def repairTimes_daily)

lemma isoDate_nonempty: "isoDate d \<noteq> []"
  by (simp add: isoDate_def)

lemma createSingle_unfold:
  "createSingleDateEvent hst j cid w =
     (if date j = [] then (Inr None, w)
      else if \<not> (date_time_valid hst (start_text j) \<and> date_time_valid hst (end_text j))
      then (Inl (Error (js ''Invalid date or time format provided'')), w)
      else (case upsert_event hst cid (job_id j) (event_payload j) w of
              (Inl err, w1) \<Rightarrow> (Inl err, w1)
            | (Inr result, w1) \<Rightarrow> (Inr (Some result), write_back (job_id j) result w1)))"
  by (auto simp: createSingleDateEvent_def Let_def case_prod_beta date_time_text_start
      date_time_text_end event_payload_def)

lemma upsert_error: "upsert_event hst cid q ev w = (Inl err, w1) \<Longrightarrow> w1 = w"
  by (auto simp: upsert_event_def events_update_def events_insert_def Let_def
      split: option.splits if_splits)

lemma upsert_result: "upsert_event hst cid q ev w = (Inr e, w1) \<Longrightarrow> e = ev\<lparr>ev_id := ev_id e\<rparr>"
  by (auto simp: upsert_event_def events_update_def events_insert_def Let_def
      split: option.splits if_splits)

lemma upsert_frame:
  "store_rows (snd (upsert_event hst cid q ev w)) = store_rows w"
  "writeback_errors (snd (upsert_event hst cid q ev w)) = writeback_errors w"
  by (simp_all add: upsert_event_def events_update_def events_insert_def Let_def
      split: option.splits)

lemma write_back_frame:
  "calendars (write_back i e w) = calendars w" "issued (write_back i e w) = issued w"
  by (simp_all add: write_back_def split: sum.splits)

lemma write_back_not_found:
  assumes "\<forall>r\<in>set (store_rows w). job_id r \<noteq> i"
  shows "write_back i ev w =
     (if ev_id ev \<noteq> [] then w\<lparr>writeback_errors := writeback_errors w @ [(i, not_found_message i)]\<rparr>
      else w)"
proof -
  have "find_index (\<lambda>r. job_id r = i) (store_rows w) = None"
    using assms by (simp add: find_index_None)
  then show ?thesis by (simp add: write_back_def updateJobEventId_def message_of_def)
qed

lemma payload_summary: "summary (event_payload j) = event_summary j"
  by (simp add: event_payload_def event_resource_def Let_def)

lemma daily_payload_summary:
  "summary (event_payload (daily_job j d)) = derived_id j d @ js '': ''
      @ or_else (customer j) (or_else (customer_name j) txt_customer)"
  by (simp add: payload_summary event_summary_def daily_job_def)

lemma daily_date: "date (daily_job j d) = isoDate d" "job_id (daily_job j d) = derived_id j d"
  by (simp_all add: daily_job_def)

lemma derived_not_in_store:
  assumes "\<forall>r\<in>set rows. \<not> prefix (job_id j @ js ''-'') (job_id r)"
  shows "\<forall>r\<in>set rows. job_id r \<noteq> derived_id j d"
  using assms by (auto simp: derived_id_def)

lemma range_loop_unfold:
  "range_loop hst j cid (d # ds) acc w =
     (case createSingleDateEvent hst (daily_job j d) cid w of
        (Inl err, w1) \<Rightarrow> (Inl err, w1)
      | (Inr None, w1) \<Rightarrow> range_loop hst j cid ds acc w1
      | (Inr (Some ev), w1) \<Rightarrow> range_loop hst j cid ds (acc @ [ev]) w1)"
  by (simp add: daily_job_def derived_id_def Let_def)

lemma daily_step:
  "createSingleDateEvent hst (daily_job j d) cid w =
     (if date_time_valid hst (start_text (daily_job j d)) \<and> date_time_valid hst (end_text (daily_job j d))
      then (case upsert_event hst cid (derived_id j d) (event_payload (daily_job j d)) w of
              (Inl err, w1) \<Rightarrow> (Inl err, w1)
            | (Inr result, w1) \<Rightarrow> (Inr (Some result), write_back (derived_id j d) result w1))
      else (Inl (Error (js ''Invalid date or time format provided'')), w))"
  using isoDate_nonempty [of d]
  by (simp add: createSingle_unfold daily_date split: prod.splits sum.splits)

lemma daily_texts_valid:
  assumes "valid_date d" "year d \<le> 9999"
  shows "date_time_valid hst (start_text (daily_job j d)) \<longleftrightarrow> valid_clock (start_clock j)"
    and "date_time_valid hst (end_text (daily_job j d)) \<longleftrightarrow> valid_clock (end_clock j)"
  using parse_iso [OF assms] texts_valid_iso [of "daily_job j d" hst]
  by (simp_all add: daily_date clock_daily)

lemma find_sound:
  assumes "lists_calendar hst" "findExistingEvent hst cid q w = Some x"
  shows "x \<in> set (calendars w cid) \<and> title_matches q x"
proof -
  from assms(2) obtain items where i: "events_list hst cid (calendars w cid) q = Some items"
    and f: "find (title_matches q) items = Some x"
    by (auto simp: findExistingEvent_def split: option.splits)
  from f have "x \<in> set items" "title_matches q x"
    by (auto simp: find_Some_iff)
  moreover from assms(1) i have "set items \<subseteq> set (calendars w cid)"
    unfolding lists_calendar_def by blast
  ultimately show ?thesis by blast
qed


lemma find_fresh:
  assumes "lists_calendar hst" "\<forall>e\<in>set (calendars w cid). \<not> title_matches q e"
  shows "findExistingEvent hst cid q w = None"
proof (cases "findExistingEvent hst cid q w")
  case None
  then show ?thesis .
next
  case (Some x)
  from find_sound [OF assms(1) Some] assms(2) show ?thesis by blast
qed

lemma upsert_insert:
  assumes "findExistingEvent hst cid q w = None" "insert_rejected hst cid ev w = None"
  shows "upsert_event hst cid q ev w =
     (Inr (ev\<lparr>ev_id := new_event_id (issued w)\<rparr>),
      w\<lparr>calendars := (calendars w)(cid := calendars w cid @ [ev\<lparr>ev_id := new_event_id (issued w)\<rparr>]),
        issued := issued w + 1\<rparr>)"
  using assms by (simp add: upsert_event_def events_insert_def Let_def)

lemma upsert_update:
  assumes "findExistingEvent hst cid q w = Some x" "update_rejected hst cid (ev_id x) ev w = None"
    and "x \<in> set (calendars w cid)"
  shows "upsert_event hst cid q ev w =
     (Inr (ev\<lparr>ev_id := ev_id x\<rparr>),
      w\<lparr>calendars := (calendars w)
          (cid := map (\<lambda>y. if ev_id y = ev_id x then ev\<lparr>ev_id := ev_id x\<rparr> else y)
                    (calendars w cid))\<rparr>)"
proof -
  from assms(3) have "list_ex (\<lambda>y. ev_id y = ev_id x) (calendars w cid)"
    by (auto simp: list_ex_iff)
  with assms(1,2) show ?thesis
    by (simp add: upsert_event_def events_update_def Let_def)
qed

lemma upsert_accepted:
  assumes "accepts_writes hst" "lists_calendar hst"
  shows "\<exists>e w1. upsert_event hst cid q ev w = (Inr e, w1)
     \<and> e \<in> set (calendars w1 cid)
     \<and> ev_id ` set (calendars w cid) \<subseteq> ev_id ` set (calendars w1 cid)
     \<and> (\<forall>c. c \<noteq> cid \<longrightarrow> calendars w1 c = calendars w c)"
proof (cases "findExistingEvent hst cid q w")
  case None
  from assms(1) have "insert_rejected hst cid ev w = None" by (simp add: accepts_writes_def)
  from upsert_insert [OF None this] show ?thesis by auto
next
  case (Some x)
  from assms(1) have a: "update_rejected hst cid (ev_id x) ev w = None"
    by (simp add: accepts_writes_def)
  from find_sound [OF assms(2) Some] have x: "x \<in> set (calendars w cid)" by simp
  let ?e = "ev\<lparr>ev_id := ev_id x\<rparr>"
  let ?m = "map (\<lambda>y. if ev_id y = ev_id x then ?e else y) (calendars w cid)"
  have "?e \<in> set ?m" using x by (auto simp: image_iff intro!: bexI [of _ x])
  moreover have "map ev_id ?m = map ev_id (calendars w cid)" by (simp add: comp_def)
  then have "ev_id ` set ?m = ev_id ` set (calendars w cid)" by (metis set_map)
  ultimately show ?thesis using upsert_update [OF Some a x] by auto
qed

lemma upsert_strip:
  "upsert_event hst cid q ev w = (Inr e, w1) \<Longrightarrow> e\<lparr>ev_id := []\<rparr> = ev\<lparr>ev_id := []\<rparr>"
  by (auto simp: upsert_event_def events_update_def events_insert_def Let_def
      split: option.splits if_splits)

lemma payload_id: "(event_payload j)\<lparr>ev_id := []\<rparr> = event_payload j"
  by (simp add: event_payload_def event_resource_def Let_def)

lemma range_loop_ok:
  assumes "\<forall>d\<in>set ds. valid_date d \<and> year d \<le> 9999"
    and "valid_clock (start_clock j)" "valid_clock (end_clock j)"
    and "accepts_writes hst" "lists_calendar hst"
  shows "\<exists>evs w'. range_loop hst j cid ds acc w = (Inr (acc @ evs), w')
     \<and> map (\<lambda>e. e\<lparr>ev_id := []\<rparr>) evs = map (\<lambda>d. event_payload (daily_job j d)) ds
     \<and> ev_id ` set evs \<subseteq> ev_id ` set (calendars w' cid)
     \<and> ev_id ` set (calendars w cid) \<subseteq> ev_id ` set (calendars w' cid)
     \<and> (evs \<noteq> [] \<longrightarrow> last evs \<in> set (calendars w' cid))
     \<and> (\<forall>c. c \<noteq> cid \<longrightarrow> calendars w' c = calendars w c)"
  using assms(1)
proof (induction ds arbitrary: acc w)
  case Nil
  then show ?case by simp
next
  case (Cons d ds)
  from Cons.prems have vd: "valid_date d" "year d \<le> 9999" by simp_all
  from upsert_accepted [OF assms(4,5), of cid "derived_id j d" "event_payload (daily_job j d)" w]
  obtain e u where u: "upsert_event hst cid (derived_id j d) (event_payload (daily_job j d)) w = (Inr e, u)"
    and eu: "e \<in> set (calendars u cid)"
    and iu: "ev_id ` set (calendars w cid) \<subseteq> ev_id ` set (calendars u cid)"
    and ou: "\<forall>c. c \<noteq> cid \<longrightarrow> calendars u c = calendars w c"
    by blast
  define w1 where "w1 = write_back (derived_id j d) e u"
  have cw: "calendars w1 = calendars u" by (simp add: w1_def write_back_frame)
  have c: "createSingleDateEvent hst (daily_job j d) cid w = (Inr (Some e), w1)"
    unfolding daily_step using daily_texts_valid [OF vd, of hst j] assms(2,3)
    by (simp add: u w1_def)
  have step: "range_loop hst j cid (d # ds) acc w = range_loop hst j cid ds (acc @ [e]) w1"
    by (subst range_loop_unfold) (simp add: c)
  from Cons.prems have "\<forall>d\<in>set ds. valid_date d \<and> year d \<le> 9999" by simp
  from Cons.IH [OF this, of "acc @ [e]" w1]
  obtain evs w' where
    r: "range_loop hst j cid ds (acc @ [e]) w1 = (Inr ((acc @ [e]) @ evs), w')"
    and m: "map (\<lambda>e. e\<lparr>ev_id := []\<rparr>) evs = map (\<lambda>d. event_payload (daily_job j d)) ds"
    and i1: "ev_id ` set evs \<subseteq> ev_id ` set (calendars w' cid)"
    and i2: "ev_id ` set (calendars w1 cid) \<subseteq> ev_id ` set (calendars w' cid)"
    and l: "evs \<noteq> [] \<longrightarrow> last evs \<in> set (calendars w' cid)"
    and o: "\<forall>c. c \<noteq> cid \<longrightarrow> calendars w' c = calendars w1 c"
    by blast
  have e: "e\<lparr>ev_id := []\<rparr> = event_payload (daily_job j d)"
    using upsert_strip [OF u] by (simp add: payload_id)
  have 1: "range_loop hst j cid (d # ds) acc w = (Inr (acc @ (e # evs)), w')"
    using step r by simp
  have 2: "map (\<lambda>e. e\<lparr>ev_id := []\<rparr>) (e # evs)
      = map (\<lambda>d. event_payload (daily_job j d)) (d # ds)"
    using m e by simp
  have 3: "ev_id ` set (e # evs) \<subseteq> ev_id ` set (calendars w' cid)"
    using i1 i2 eu cw by auto
  have 4: "ev_id ` set (calendars w cid) \<subseteq> ev_id ` set (calendars w' cid)"
    using iu i2 cw by auto
  have 5: "last (e # evs) \<in> set (calendars w' cid)"
  proof (cases "evs = []")
    case True
    with m have "ds = []" by simp
    with r True have "w' = w1" by simp
    with True eu cw show ?thesis by simp
  next
    case False
    with l show ?thesis by simp
  qed
  have 6: "\<forall>c. c \<noteq> cid \<longrightarrow> calendars w' c = calendars w c"
    using o ou cw by simp
  show ?case
    by (rule exI [of _ "e # evs"], rule exI [of _ w']) (use 1 2 3 4 5 6 in simp)
qed

lemma title_matches_id: "title_matches q (e\<lparr>ev_id := i\<rparr>) = title_matches q e"
  by (simp add: title_matches_def)

lemma range_loop_fresh:
  assumes "\<forall>d\<in>set ds. valid_date d \<and> year d \<le> 9999"
    and "valid_clock (start_clock j)" "valid_clock (end_clock j)"
    and "accepts_writes hst" "lists_calendar hst"
    and "distinct ds"
    and "\<forall>d\<in>set ds. \<forall>e\<in>set (calendars w cid). \<not> title_matches (derived_id j d) e"
    and "\<forall>x\<in>set ds. \<forall>y\<in>set ds. x \<noteq> y \<longrightarrow>
           \<not> title_matches (derived_id j y) (event_payload (daily_job j x))"
  shows "\<exists>evs w'. range_loop hst j cid ds acc w = (Inr (acc @ evs), w')
     \<and> calendars w' cid = calendars w cid @ evs
     \<and> map ev_id evs = map new_event_id [issued w..<issued w + length ds]
     \<and> issued w' = issued w + length ds"
  using assms(1,6,7,8)
proof (induction ds arbitrary: acc w)
  case Nil
  then show ?case by simp
next
  case (Cons d ds)
  from Cons.prems(1) have vd: "valid_date d" "year d \<le> 9999" by simp_all
  let ?p = "event_payload (daily_job j d)"
  let ?e = "?p\<lparr>ev_id := new_event_id (issued w)\<rparr>"
  define u where "u = w\<lparr>calendars := (calendars w)(cid := calendars w cid @ [?e]),
        issued := issued w + 1\<rparr>"
  from Cons.prems(3) have "\<forall>e\<in>set (calendars w cid). \<not> title_matches (derived_id j d) e" by simp
  from find_fresh [OF assms(5) this]
  have fn: "findExistingEvent hst cid (derived_id j d) w = None" .
  from assms(4) have "insert_rejected hst cid ?p w = None" by (simp add: accepts_writes_def)
  from upsert_insert [OF fn this]
  have up: "upsert_event hst cid (derived_id j d) ?p w = (Inr ?e, u)" by (simp add: u_def)
  define w1 where "w1 = write_back (derived_id j d) ?e u"
  have cw: "calendars w1 = calendars u" "issued w1 = issued u"
    by (simp_all add: w1_def write_back_frame)
  have c: "createSingleDateEvent hst (daily_job j d) cid w = (Inr (Some ?e), w1)"
    unfolding daily_step using daily_texts_valid [OF vd, of hst j] assms(2,3)
    by (simp add: up w1_def)
  have step: "range_loop hst j cid (d # ds) acc w = range_loop hst j cid ds (acc @ [?e]) w1"
    by (subst range_loop_unfold) (simp add: c)
  have p1: "\<forall>d\<in>set ds. valid_date d \<and> year d \<le> 9999" using Cons.prems(1) by simp
  have p2: "distinct ds" using Cons.prems(2) by simp
  have p3: "\<forall>d'\<in>set ds. \<forall>e\<in>set (calendars w1 cid). \<not> title_matches (derived_id j d') e"
  proof (intro ballI)
    fix d' e
    assume d': "d' \<in> set ds" and e: "e \<in> set (calendars w1 cid)"
    from d' Cons.prems(2) have ne: "d \<noteq> d'" by auto
    from e have "e \<in> set (calendars w cid) \<or> e = ?e" by (auto simp: cw u_def)
    then show "\<not> title_matches (derived_id j d') e"
    proof
      assume "e \<in> set (calendars w cid)"
      with Cons.prems(3) d' show ?thesis by simp
    next
      assume "e = ?e"
      moreover from Cons.prems(4) d' ne have "\<not> title_matches (derived_id j d') ?p" by simp
      ultimately show ?thesis by (simp add: title_matches_id)
    qed
  qed
  have p4: "\<forall>x\<in>set ds. \<forall>y\<in>set ds. x \<noteq> y \<longrightarrow>
           \<not> title_matches (derived_id j y) (event_payload (daily_job j x))"
    using Cons.prems(4) by simp
  from Cons.IH [OF p1 p2 p3 p4, of "acc @ [?e]"]
  obtain evs w' where
    r: "range_loop hst j cid ds (acc @ [?e]) w1 = (Inr ((acc @ [?e]) @ evs), w')"
    and cal: "calendars w' cid = calendars w1 cid @ evs"
    and ids: "map ev_id evs = map new_event_id [issued w1..<issued w1 + length ds]"
    and iss: "issued w' = issued w1 + length ds"
    by blast
  have 1: "range_loop hst j cid (d # ds) acc w = (Inr (acc @ (?e # evs)), w')"
    using step r by simp
  have 2: "calendars w' cid = calendars w cid @ (?e # evs)"
    using cal by (simp add: cw u_def)
  have "[issued w..<issued w + length (d # ds)] = issued w # [issued w1..<issued w1 + length ds]"
    by (simp add: cw u_def upt_rec)
  then have 3: "map ev_id (?e # evs) = map new_event_id [issued w..<issued w + length (d # ds)]"
    using ids by simp
  have 4: "issued w' = issued w + length (d # ds)"
    using iss by (simp add: cw u_def)
  show ?case
    by (rule exI [of _ "?e # evs"], rule exI [of _ w']) (use 1 2 3 4 in simp)
qed

lemma range_loop_store:
  assumes "\<forall>r\<in>set (store_rows w). \<not> prefix (job_id j @ js ''-'') (job_id r)"
    and "range_loop hst j cid ds acc w = (r, w')"
  shows "store_rows w' = store_rows w
    \<and> (\<forall>evs. r = Inr evs \<longrightarrow>
          (\<exists>new. evs = acc @ new \<and> length new = length ds
             \<and> writeback_errors w' = writeback_errors w @
                 map (\<lambda>(d, e). (derived_id j d, not_found_message (derived_id j d)))
                   (filter (\<lambda>(d, e). ev_id e \<noteq> []) (zip ds new))))"
  using assms
proof (induction ds arbitrary: acc w)
  case Nil
  then show ?case by auto
next
  case (Cons d ds)
  obtain ur u where u: "upsert_event hst cid (derived_id j d) (event_payload (daily_job j d)) w = (ur, u)"
    by (cases "upsert_event hst cid (derived_id j d) (event_payload (daily_job j d)) w")
  have fr: "store_rows u = store_rows w" "writeback_errors u = writeback_errors w"
    using upsert_frame [of hst cid "derived_id j d" "event_payload (daily_job j d)" w]
    by (simp_all add: u)
  have ns: "\<forall>r\<in>set (store_rows u). job_id r \<noteq> derived_id j d"
    using derived_not_in_store [OF Cons.prems(1), of d] by (simp add: fr)
  let ?err = "Inl (Error (js ''Invalid date or time format provided'')) :: js_error + event list"
  consider (invalid) "\<not> (date_time_valid hst (start_text (daily_job j d))
        \<and> date_time_valid hst (end_text (daily_job j d)))"
    | (rejected) err where "date_time_valid hst (start_text (daily_job j d))"
        "date_time_valid hst (end_text (daily_job j d))" "ur = Inl err"
    | (stored) e where "date_time_valid hst (start_text (daily_job j d))"
        "date_time_valid hst (end_text (daily_job j d))" "ur = Inr e"
    by (cases ur) auto
  then show ?case
  proof cases
    case invalid
    then have "createSingleDateEvent hst (daily_job j d) cid w = (Inl (Error (js ''Invalid date or time format provided'')), w)"
      unfolding daily_step by auto
    then have "range_loop hst j cid (d # ds) acc w = (?err, w)"
      by (subst range_loop_unfold) simp
    with Cons.prems(2) have "r = ?err" "w' = w"
      by simp_all
    then show ?thesis by simp
  next
    case rejected
    then have "createSingleDateEvent hst (daily_job j d) cid w = (Inl err, u)"
      unfolding daily_step by (simp add: u)
    then have "range_loop hst j cid (d # ds) acc w = (Inl err, u)"
      by (subst range_loop_unfold) simp
    with Cons.prems(2) have "r = Inl err" "w' = u"
      by simp_all
    then show ?thesis using fr by simp
  next
    case stored
    define w1 where "w1 = write_back (derived_id j d) e u"
    have s1: "store_rows w1 = store_rows w"
      unfolding w1_def write_back_not_found [OF ns] using fr by simp
    have l1: "writeback_errors w1 = writeback_errors w @
        (if ev_id e \<noteq> [] then [(derived_id j d, not_found_message (derived_id j d))] else [])"
      unfolding w1_def write_back_not_found [OF ns] using fr by simp
    from stored have c: "createSingleDateEvent hst (daily_job j d) cid w = (Inr (Some e), w1)"
      unfolding daily_step by (simp add: u w1_def)
    have "range_loop hst j cid (d # ds) acc w = range_loop hst j cid ds (acc @ [e]) w1"
      by (subst range_loop_unfold) (simp add: c)
    with Cons.prems(2) have rl: "range_loop hst j cid ds (acc @ [e]) w1 = (r, w')"
      by simp
    have p1: "\<forall>r\<in>set (store_rows w1). \<not> prefix (job_id j @ js ''-'') (job_id r)"
      using Cons.prems(1) s1 by simp
    from Cons.IH [OF p1 rl] s1 have st: "store_rows w' = store_rows w" by simp
    have "\<exists>new. evs = acc @ new \<and> length new = length (d # ds)
        \<and> writeback_errors w' = writeback_errors w @
            map (\<lambda>(d, e). (derived_id j d, not_found_message (derived_id j d)))
              (filter (\<lambda>(d, e). ev_id e \<noteq> []) (zip (d # ds) new))"
      if "r = Inr evs" for evs
    proof -
      from Cons.IH [OF p1 rl] that obtain new where
        n: "evs = (acc @ [e]) @ new" "length new = length ds"
           "writeback_errors w' = writeback_errors w1 @
              map (\<lambda>(d, e). (derived_id j d, not_found_message (derived_id j d)))
                (filter (\<lambda>(d, e). ev_id e \<noteq> []) (zip ds new))"
        by blast
      have "evs = acc @ (e # new)" "length (e # new) = length (d # ds)"
        using n by simp_all
      moreover have "writeback_errors w' = writeback_errors w @
            map (\<lambda>(d, e). (derived_id j d, not_found_message (derived_id j d)))
              (filter (\<lambda>(d, e). ev_id e \<noteq> []) (zip (d # ds) (e # new)))"
        unfolding n(3) l1 by simp
      ultimately show ?thesis by blast
    qed
    with st show ?thesis by blast
  qed
qed

lemma range_days_step:
  "instant_le s t \<Longrightarrow> range_days s t = s # range_days (next_day (fst s), snd s) t"
  by (subst range_days.simps) simp

lemma range_days_stop: "\<not> instant_le s t \<Longrightarrow> range_days s t = []"
  by (subst range_days.simps) simp

lemma range_days_same_time:
  "ta \<le> tb \<Longrightarrow> map fst (range_days (a, ta) (b, tb)) = days_loop a b"
proof (induction a b rule: days_loop.induct)
  case (1 a b)
  have le: "instant_le (a, ta) (b, tb) \<longleftrightarrow> date_le a b"
    using 1(2) by (auto simp: instant_le_def date_le_refl)
  show ?case
  proof (cases "date_le a b")
    case True
    with 1 le show ?thesis by (simp add: range_days_step days_loop_step)
  next
    case False
    with le show ?thesis by (simp add: range_days_stop days_loop_stop)
  qed
qed

subsection \<open>Synchronising a job\<close>

lemma sync_unfold:
  assumes "calendarIds cf (repaired_team j) = Str cid" "cid \<noteq> []"
  shows "syncJobToCalendar hst cf j w =
     (if is_range_job j then
        (case createDateRangeEvents hst j cid w of
           (Inl err, w1) \<Rightarrow> (Inl err, w1)
         | (Inr events, w1) \<Rightarrow> (Inr (Many events), w1))
      else
        (case createSingleDateEvent hst j cid w of
           (Inl err, w1) \<Rightarrow> (Inl err, w1)
         | (Inr None, w1) \<Rightarrow> (Inr Skipped, w1)
         | (Inr (Some ev), w1) \<Rightarrow> (Inr (Single ev), w1)))"
  using assms by (simp add: syncJobToCalendar_def Let_def truthy_def is_range_job_def)

lemma range_unfold:
  assumes "is_range_job j"
    and "parseDate hst (start_date j) = Some sa" "parseDate hst (end_date j) = Some sb"
  shows "createDateRangeEvents hst j cid w
     = range_loop hst j cid (map fst (range_days sa sb)) [] w"
  using assms by (simp add: createDateRangeEvents_def is_range_job_def)

lemma sync_range:
  assumes "calendarIds cf (repaired_team j) = Str cid" "cid \<noteq> []" "is_range_job j"
    and "parseDate hst (start_date j) = Some sa" "parseDate hst (end_date j) = Some sb"
    and "range_loop hst j cid (map fst (range_days sa sb)) [] w = (r, w')"
  shows "syncJobToCalendar hst cf j w =
     (case r of Inl err \<Rightarrow> Inl err | Inr events \<Rightarrow> Inr (Many events), w')"
  by (simp add: sync_unfold [OF assms(1,2)] assms(3) range_unfold [OF assms(3,4,5)] assms(6)
      split: sum.splits)

lemma parseDate_iso:
  "date_only s = Some c \<Longrightarrow> parseDate hst s = Some (c, 0)"
  by (simp add: parseDate_def date_only_def split: if_splits)

lemma isoDate_inj:
  assumes "valid_date a" "year a \<le> 9999" "valid_date b" "year b \<le> 9999" "isoDate a = isoDate b"
  shows "a = b"
proof -
  have "Some a = date_only (isoDate a)" using parse_iso [OF assms(1,2)] by simp
  also have "\<dots> = date_only (isoDate b)" by (simp only: assms(5))
  also have "\<dots> = Some b" using parse_iso [OF assms(3,4)] by simp
  finally show ?thesis by simp
qed

lemma days_loop_bounds:
  assumes "valid_date a" "year b \<le> 9999" "x \<in> set (days_loop a b)"
  shows "valid_date x \<and> year x \<le> 9999"
proof -
  from days_loop_mem [OF assms(1), of x b] assms(3) have "valid_date x" "date_le x b" by simp_all
  with date_le_year [of x b] assms(2) show ?thesis by simp
qed

lemma derived_distinct:
  assumes "valid_date a" "year b \<le> 9999"
  shows "distinct (map (derived_id j) (days_loop a b))"
proof -
  have "inj_on (derived_id j) (set (days_loop a b))"
  proof (rule inj_onI)
    fix x y
    assume x: "x \<in> set (days_loop a b)" and y: "y \<in> set (days_loop a b)"
      and e: "derived_id j x = derived_id j y"
    from e have "isoDate x = isoDate y" by (simp add: derived_id_def)
    with days_loop_bounds [OF assms x] days_loop_bounds [OF assms y] show "x = y"
      by (intro isoDate_inj) simp_all
  qed
  with days_loop_distinct [OF assms(1)] show ?thesis by (simp add: distinct_map)
qed

lemmas sync_ev = two_queues_def range_job_def blank_job_def team_A_def team_B_def
  team_new_queue_def team_quotation_def calendarIds_def env_val_def repaired_team_def
  or_else_def

lemma plain_host_ok: "accepts_writes plain_host" "lists_calendar plain_host"
  by (auto simp: accepts_writes_def lists_calendar_def plain_host_def title_search_def
      dest: in_set_takeD)

lemma range_job_calendar: "calendarIds two_queues (repaired_team range_job) = Str (js ''queue-a'')"
  by (simp add: sync_ev js_def)

lemma range_job_is_range: "is_range_job range_job"
  by (simp add: is_range_job_def range_job_def js_def)

lemma parse_aug: "date_only (js ''2025-08-01'') = Some \<lparr> year = 2025, month = 8, day = 1 \<rparr>"
   "date_only (js ''2025-08-03'') = Some \<lparr> year = 2025, month = 8, day = 3 \<rparr>"
  by (simp_all add: date_only_def dec_val_def days_in_month_def js_def is_digit_def)

lemma range_job_dates:
  "parseDate hst (start_date range_job) = Some (\<lparr> year = 2025, month = 8, day = 1 \<rparr>, 0)"
  "parseDate hst (end_date range_job) = Some (\<lparr> year = 2025, month = 8, day = 3 \<rparr>, 0)"
  using parse_aug by (simp_all add: range_job_def parseDate_iso)

lemma range_job_clocks: "start_clock range_job = js ''09:00''" "end_clock range_job = js ''17:00''"
  by (simp_all add: start_clock_def end_clock_def repairTimes_def normalizeTime_def Let_def
      re_hh_mm_def re_h_mm_def re_hh_def re_hh_m_def re_compact_def hours_of_def minutes_of_def
      range_job_def blank_job_def or_else_def str_ev)

lemma clocks_valid: "valid_clock (js ''09:00'')" "valid_clock (js ''17:00'')"
  by (simp_all add: valid_clock_def dec_val_def js_def is_digit_def)

lemma aug_days: "days_loop \<lparr> year = 2025, month = 8, day = 1 \<rparr> \<lparr> year = 2025, month = 8, day = 3 \<rparr>
   = [\<lparr> year = 2025, month = 8, day = 1 \<rparr>, \<lparr> year = 2025, month = 8, day = 2 \<rparr>,
      \<lparr> year = 2025, month = 8, day = 3 \<rparr>]"
  by (simp add: days_loop_step days_loop_stop date_le_def next_day_def days_in_month_def)

lemma aug_iso: "isoDate \<lparr> year = 2025, month = 8, day = 1 \<rparr> = js ''2025-08-01''"
   "isoDate \<lparr> year = 2025, month = 8, day = 2 \<rparr> = js ''2025-08-02''"
   "isoDate \<lparr> year = 2025, month = 8, day = 3 \<rparr> = js ''2025-08-03''"
  by (simp_all add: isoDate_def str_ev)

lemma aug_iso_Suc: "isoDate \<lparr> year = 2025, month = 8, day = Suc 0 \<rparr> = js ''2025-08-01''"
  using aug_iso(1) by simp

text \<open>
  Claim C6. Let a range job's team resolve to a calendar, let \<open>new Date\<close> read its start and
  end dates as instants on the days \<open>a\<close> and \<open>b\<close>, \<open>a\<close> a calendar day and \<open>b\<close> no later than
  the year 9999, the end no earlier in its day than the start (all of which holds for valid
  dates written \<open>YYYY-MM-DD\<close>, read as midnight UTC of the day), let its times be valid, and
  let the service accept the writes and list events of the calendar asked. Then
  \<open>syncJobToCalendar\<close> returns one event per day of the loop, in order; each is the event
  composed for that day's view of the job (its date the day, its id the derived
  identifier), so its title starts with \<open>{job_id}-{date}\<close>; the days of the loop are
  exactly the calendar days from \<open>a\<close> to \<open>b\<close> inclusive; and the derived identifiers are
  pairwise distinct. The events are in the calendar: the id of every returned event is the
  id of an event of the calendar afterwards, the last returned event is there as returned,
  and no other calendar is touched. When, moreover, no event of the calendar has a title
  containing one of the derived identifiers, and no day's title contains another day's
  identifier, the calendar afterwards is the calendar before followed by the returned
  events, each under a new id.
\<close>

theorem range_expansion:
  assumes "calendarIds cf (repaired_team j) = Str cid" "cid \<noteq> []"
    and "is_range_job j"
    and "parseDate hst (start_date j) = Some (a, ta)" "parseDate hst (end_date j) = Some (b, tb)"
    and "ta \<le> tb" "valid_date a" "year b \<le> 9999"
    and "valid_clock (start_clock j)" "valid_clock (end_clock j)"
    and "accepts_writes hst" "lists_calendar hst"
  shows "\<exists>evs w'. syncJobToCalendar hst cf j w = (Inr (Many evs), w')
     \<and> map (\<lambda>e. e\<lparr>ev_id := []\<rparr>) evs = map (\<lambda>d. event_payload (daily_job j d)) (days_loop a b)
     \<and> map summary evs
         = map (\<lambda>d. derived_id j d @ js '': ''
                    @ or_else (customer j) (or_else (customer_name j) txt_customer)) (days_loop a b)
     \<and> (\<forall>x. x \<in> set (days_loop a b) \<longleftrightarrow> valid_date x \<and> date_le a x \<and> date_le x b)
     \<and> distinct (map (derived_id j) (days_loop a b))
     \<and> ev_id ` set evs \<subseteq> ev_id ` set (calendars w' cid)
     \<and> (evs \<noteq> [] \<longrightarrow> last evs \<in> set (calendars w' cid))
     \<and> (\<forall>c. c \<noteq> cid \<longrightarrow> calendars w' c = calendars w c)
     \<and> ((\<forall>d\<in>set (days_loop a b). \<forall>e\<in>set (calendars w cid). \<not> title_matches (derived_id j d) e)
         \<and> (\<forall>x\<in>set (days_loop a b). \<forall>y\<in>set (days_loop a b). x \<noteq> y \<longrightarrow>
                \<not> title_matches (derived_id j y) (event_payload (daily_job j x)))
         \<longrightarrow> calendars w' cid = calendars w cid @ evs
             \<and> map ev_id evs = map new_event_id [issued w..<issued w + length (days_loop a b)])"
proof -
  let ?days = "days_loop a b"
  have dl: "map fst (range_days (a, ta) (b, tb)) = ?days"
    using assms(6) by (rule range_days_same_time)
  have ds: "\<forall>d\<in>set ?days. valid_date d \<and> year d \<le> 9999"
    using days_loop_bounds [OF assms(7,8)] by blast
  from range_loop_ok [OF ds assms(9,10,11,12), of cid "[]" w] obtain evs w' where
    l: "range_loop hst j cid ?days [] w = (Inr evs, w')"
    and m: "map (\<lambda>e. e\<lparr>ev_id := []\<rparr>) evs = map (\<lambda>d. event_payload (daily_job j d)) ?days"
    and i: "ev_id ` set evs \<subseteq> ev_id ` set (calendars w' cid)"
    and la: "evs \<noteq> [] \<longrightarrow> last evs \<in> set (calendars w' cid)"
    and o: "\<forall>c. c \<noteq> cid \<longrightarrow> calendars w' c = calendars w c"
    by auto
  have s: "syncJobToCalendar hst cf j w = (Inr (Many evs), w')"
    using sync_range [OF assms(1,2,3,4,5), of w "Inr evs" w'] l by (simp add: dl)
  have "map summary evs = map summary (map (\<lambda>e. e\<lparr>ev_id := []\<rparr>) evs)" by simp
  also have "\<dots> = map (\<lambda>d. derived_id j d @ js '': ''
       @ or_else (customer j) (or_else (customer_name j) txt_customer)) ?days"
    unfolding m by (simp add: daily_payload_summary)
  finally have t: "map summary evs = map (\<lambda>d. derived_id j d @ js '': ''
       @ or_else (customer j) (or_else (customer_name j) txt_customer)) ?days" .
  have f: "calendars w' cid = calendars w cid @ evs
      \<and> map ev_id evs = map new_event_id [issued w..<issued w + length ?days]"
    if F: "\<forall>d\<in>set ?days. \<forall>e\<in>set (calendars w cid). \<not> title_matches (derived_id j d) e"
      and X: "\<forall>x\<in>set ?days. \<forall>y\<in>set ?days. x \<noteq> y \<longrightarrow>
                \<not> title_matches (derived_id j y) (event_payload (daily_job j x))"
  proof -
    from range_loop_fresh [OF ds assms(9,10,11,12) days_loop_distinct [OF assms(7)] F X,
        of "[]"]
    obtain evs2 w2 where "range_loop hst j cid ?days [] w = (Inr evs2, w2)"
      "calendars w2 cid = calendars w cid @ evs2"
      "map ev_id evs2 = map new_event_id [issued w..<issued w + length ?days]"
      by auto
    with l show ?thesis by simp
  qed
  from s m t i la o f days_loop_mem [OF assms(7), of _ b] derived_distinct [OF assms(7,8), of j]
  show ?thesis by blast
qed

text \<open>
  The range 2025-08-01 to 2025-08-03, on a service with empty calendars, yields exactly
  three events, dated 2025-08-01, 2025-08-02 and 2025-08-03, and they are the events of
  the queue calendar afterwards.
\<close>

theorem range_expansion_witness:
  "\<exists>evs w'. syncJobToCalendar plain_host two_queues range_job (fresh_world []) = (Inr (Many evs), w')
     \<and> map summary evs = [js ''JOB-000007-2025-08-01: Somchai'', js ''JOB-000007-2025-08-02: Somchai'',
                           js ''JOB-000007-2025-08-03: Somchai'']
     \<and> map ev_start evs = [AtTime (js ''2025-08-01T09:00:00+07:00''),
                            AtTime (js ''2025-08-02T09:00:00+07:00''),
                            AtTime (js ''2025-08-03T09:00:00+07:00'')]
     \<and> map ev_id evs = [js ''evt0'', js ''evt1'', js ''evt2'']
     \<and> calendars w' (js ''queue-a'') = evs"
proof -
  let ?a = "\<lparr> year = 2025, month = 8, day = 1 \<rparr>"
  let ?b = "\<lparr> year = 2025, month = 8, day = 3 \<rparr>"
  have ne: "js ''queue-a'' \<noteq> []" by (simp add: js_def)
  have vc: "valid_clock (start_clock range_job)" "valid_clock (end_clock range_job)"
    using clocks_valid by (simp_all add: range_job_clocks)
  have va: "valid_date ?a" "year ?b \<le> 9999"
    by (simp_all add: valid_date_def days_in_month_def)
  have F: "\<forall>d\<in>set (days_loop ?a ?b). \<forall>e\<in>set (calendars (fresh_world []) (js ''queue-a'')).
      \<not> title_matches (derived_id range_job d) e"
    by (simp add: fresh_world_def)
  have s: "summary (event_payload (daily_job range_job d))
      = js ''JOB-000007-'' @ isoDate d @ js '': Somchai''" for d
    unfolding daily_payload_summary by (simp add: derived_id_def sync_ev js_def)
  have X: "\<forall>x\<in>set (days_loop ?a ?b). \<forall>y\<in>set (days_loop ?a ?b). x \<noteq> y \<longrightarrow>
      \<not> title_matches (derived_id range_job y) (event_payload (daily_job range_job x))"
    unfolding aug_days title_matches_def s
    by (simp add: derived_id_def aug_iso aug_iso_Suc) (simp add: range_job_def js_def)
  from range_expansion [OF range_job_calendar ne range_job_is_range range_job_dates _ va vc
      plain_host_ok, of "fresh_world []"] F X
  obtain evs w' where
    s: "syncJobToCalendar plain_host two_queues range_job (fresh_world []) = (Inr (Many evs), w')"
    and p: "map (\<lambda>e. e\<lparr>ev_id := []\<rparr>) evs = map (\<lambda>d. event_payload (daily_job range_job d))
         (days_loop ?a ?b)"
    and t: "map summary evs = map (\<lambda>d. derived_id range_job d @ js '': ''
           @ or_else (customer range_job) (or_else (customer_name range_job) txt_customer))
         (days_loop ?a ?b)"
    and c: "calendars w' (js ''queue-a'') = calendars (fresh_world []) (js ''queue-a'') @ evs"
    and i: "map ev_id evs = map new_event_id
         [issued (fresh_world [])..<issued (fresh_world []) + length (days_loop ?a ?b)]"
    by blast
  have t': "map summary evs = [js ''JOB-000007-2025-08-01: Somchai'',
      js ''JOB-000007-2025-08-02: Somchai'', js ''JOB-000007-2025-08-03: Somchai'']"
    unfolding t aug_days
    by (simp only: list.map derived_id_def aug_iso) (simp add: sync_ev js_def)
  have "map ev_start evs = map ev_start (map (\<lambda>e. e\<lparr>ev_id := []\<rparr>) evs)" by simp
  also have "\<dots> = [AtTime (js ''2025-08-01T09:00:00+07:00''),
      AtTime (js ''2025-08-02T09:00:00+07:00''), AtTime (js ''2025-08-03T09:00:00+07:00'')]"
    unfolding p aug_days
    by (simp only: list.map event_payload_def event_resource_def Let_def start_text_def clock_daily
        range_job_clocks daily_date aug_iso)
      (simp add: daily_job_def range_job_def blank_job_def js_def)
  finally have e: "map ev_start evs = [AtTime (js ''2025-08-01T09:00:00+07:00''),
      AtTime (js ''2025-08-02T09:00:00+07:00''), AtTime (js ''2025-08-03T09:00:00+07:00'')]" .
  have i': "map ev_id evs = [js ''evt0'', js ''evt1'', js ''evt2'']"
    unfolding i aug_days
    by (simp add: fresh_world_def upt_rec new_event_id_def str_ev js_def)
  have c': "calendars w' (js ''queue-a'') = evs"
    using c by (simp add: fresh_world_def)
  show ?thesis
    by (rule exI [of _ evs], rule exI [of _ w']) (simp only: s t' e i' c')
qed

text \<open>
  Claim C10. For a range job whose start and end dates \<open>new Date\<close> accepts, when no row of
  the sheet has an id that starts with the job's id followed by a hyphen (so none is a
  derived identifier), a sync leaves every row of the sheet as it was, the job's stored
  \<open>eventId\<close> included; and when the sync returns its events, each created event with an id
  has had its write-back fail with the not-found error of \<open>updateJobEventId\<close> for the
  derived identifier, which is caught and logged, nothing else having been logged.
\<close>

theorem range_writeback_never_lands:
  assumes "calendarIds cf (repaired_team j) = Str cid" "cid \<noteq> []"
    and "is_range_job j"
    and "parseDate hst (start_date j) = Some sa" "parseDate hst (end_date j) = Some sb"
    and "\<forall>r\<in>set (store_rows w). \<not> prefix (job_id j @ js ''-'') (job_id r)"
  shows "store_rows (snd (syncJobToCalendar hst cf j w)) = store_rows w
     \<and> (\<forall>evs. fst (syncJobToCalendar hst cf j w) = Inr (Many evs) \<longrightarrow>
           length evs = length (range_days sa sb)
           \<and> writeback_errors (snd (syncJobToCalendar hst cf j w)) = writeback_errors w @
               map (\<lambda>(d, e). (derived_id j d, not_found_message (derived_id j d)))
                 (filter (\<lambda>(d, e). ev_id e \<noteq> []) (zip (map fst (range_days sa sb)) evs)))"
proof -
  let ?days = "map fst (range_days sa sb)"
  obtain res w' where l: "range_loop hst j cid ?days [] w = (res, w')"
    by (cases "range_loop hst j cid ?days [] w")
  have s: "syncJobToCalendar hst cf j w =
      (case res of Inl err \<Rightarrow> Inl err | Inr events \<Rightarrow> Inr (Many events), w')"
    by (rule sync_range [OF assms(1,2,3,4,5) l])
  from range_loop_store [OF assms(6) l] have
    st: "store_rows w' = store_rows w"
    and lg: "\<And>evs. res = Inr evs \<Longrightarrow> length evs = length ?days
       \<and> writeback_errors w' = writeback_errors w @
               map (\<lambda>(d, e). (derived_id j d, not_found_message (derived_id j d)))
                 (filter (\<lambda>(d, e). ev_id e \<noteq> []) (zip ?days evs))"
    by auto
  show ?thesis using st lg by (auto simp: s split: sum.splits)
qed

text \<open>
  A sheet holding the range job itself, with its empty \<open>eventId\<close>, is unchanged by the sync.
\<close>

theorem range_writeback_never_lands_witness:
  "store_rows (snd (syncJobToCalendar plain_host two_queues range_job stored_range_world))
     = [blank_job\<lparr>job_id := js ''JOB-000006''\<rparr>, range_job, blank_job\<lparr>job_id := js ''/''\<rparr>]
   \<and> eventId range_job = []"
proof -
  have ne: "js ''queue-a'' \<noteq> []" by (simp add: js_def)
  have h: "\<forall>r\<in>set (store_rows stored_range_world). \<not> prefix (job_id range_job @ js ''-'') (job_id r)"
    by (simp add: stored_range_world_def fresh_world_def range_job_def blank_job_def js_def)
  from range_writeback_never_lands [OF range_job_calendar ne range_job_is_range range_job_dates h]
  have "store_rows (snd (syncJobToCalendar plain_host two_queues range_job stored_range_world))
     = store_rows stored_range_world"
    by blast
  then show ?thesis
    by (simp add: stored_range_world_def fresh_world_def) (simp add: range_job_def blank_job_def)
qed











subsection \<open>Idempotent upsert\<close>














end
